theory Spec2Isabelle
  imports Complex_Main "HOL-Library.Sublist" "HOL-Library.Multiset"
begin

section \<open>HHESTIA training tools (training/tools/functions.py)\<close>

text \<open>
  A shallow embedding of the helper functions of \<^verbatim>\<open>functions.py\<close>. Each Python function
  is a HOL function of the same name; a \<^verbatim>\<open>for\<close> or \<^verbatim>\<open>while\<close> loop is a recursive function
  named after its function with the suffix \<open>_loop\<close>, whose extra arguments are the local
  variables the loop updates.
\<close>

datatype py_error = IndexError | TypeError | ValueError | KeyError

type_synonym addr = nat

subsection \<open>plot_confusion_matrix\<close>

text \<open>
  A float64 value is a finite number, an infinity or NaN. A finite float64 is a real
  number with a significand of 53 bits, and the result of a conversion or of a division
  is the exact result rounded to the nearest such number, ties going to the even
  significand (IEEE 754, the rounding numpy uses). \<open>round53\<close> is this rounding: the
  number is scaled by powers of two until it lies in \<open>[2^52, 2^53)\<close>, rounded to the nearest
  integer there (\<open>rne\<close>, ties to even), and scaled back. The exponent is not bounded:
  overflow and gradual underflow, which set in beyond \<open>2^1024\<close> and below \<open>2^-1022\<close>, are
  out of reach of integers of 64 bits and of their quotients.
\<close>

definition rne :: "real \<Rightarrow> int" where
  "rne x = (let f = \<lfloor>x\<rfloor> in
            if x - of_int f < 1 / 2 then f
            else if 1 / 2 < x - of_int f then f + 1
            else if even f then f else f + 1)"

function scale_down :: "real \<Rightarrow> int \<Rightarrow> real \<times> int" where
  "scale_down x e = (if 2 ^ 53 \<le> x then scale_down (x / 2) (e + 1) else (x, e))"
  by pat_completeness auto
termination
proof (relation "measure (\<lambda>(x, e). nat \<lfloor>x\<rfloor>)")
  show "wf (measure (\<lambda>(x, e). nat \<lfloor>x\<rfloor>))" by simp
next
  fix x :: real and e :: int
  assume a: "2 ^ 53 \<le> x"
  then have one: "1 \<le> x" by simp
  have "\<lfloor>x / 2\<rfloor> < \<lfloor>x\<rfloor>"
  proof -
    have "x / 2 + 1 \<le> x" using a by simp
    then have "\<lfloor>x / 2 + 1\<rfloor> \<le> \<lfloor>x\<rfloor>" by (rule floor_mono)
    then show ?thesis by simp
  qed
  moreover have "0 < \<lfloor>x\<rfloor>" using one by simp
  ultimately show "((x / 2, e + 1), (x, e)) \<in> measure (\<lambda>(x, e). nat \<lfloor>x\<rfloor>)"
    by simp
qed

function scale_up :: "real \<Rightarrow> int \<Rightarrow> real \<times> int" where
  "scale_up x e = (if 0 < x \<and> x < 2 ^ 52 then scale_up (2 * x) (e - 1) else (x, e))"
  by pat_completeness auto
termination
proof (relation "measure (\<lambda>(x, e). nat \<lceil>52 - log 2 x\<rceil>)")
  show "wf (measure (\<lambda>(x, e). nat \<lceil>52 - log 2 x\<rceil>))" by simp
next
  fix x :: real and e :: int
  assume a: "0 < x \<and> x < 2 ^ 52"
  have "2 powr 52 = (2::real) ^ 52" using powr_realpow [of 2 52] by simp
  with a have "x < 2 powr 52" by simp
  with a have lt: "log 2 x < 52" by (simp add: log_less_iff)
  have "log 2 (2 * x) = 1 + log 2 x" using a by (simp add: log_mult)
  then have "\<lceil>52 - log 2 (2 * x)\<rceil> = \<lceil>52 - log 2 x\<rceil> - 1" by (simp add: algebra_simps) linarith
  moreover have "0 < \<lceil>52 - log 2 x\<rceil>" using lt by simp
  ultimately show "((2 * x, e - 1), (x, e)) \<in> measure (\<lambda>(x, e). nat \<lceil>52 - log 2 x\<rceil>)"
    by simp
qed

declare scale_down.simps [simp del] scale_up.simps [simp del]

definition pow2 :: "int \<Rightarrow> real" where
  "pow2 e = (if 0 \<le> e then 2 ^ nat e else 1 / 2 ^ nat (- e))"

definition round53 :: "real \<Rightarrow> real" where
  "round53 x =
     (if x = 0 then 0
      else case scale_down \<bar>x\<bar> 0 of (x1, e1) \<Rightarrow>
           case scale_up x1 e1 of (m, e) \<Rightarrow> sgn x * of_int (rne m) * pow2 e)"

datatype fval = Fin real | PosInf | NegInf | NaN

text \<open>
  \<open>x / y\<close> for a float64 \<open>x\<close> and an int64 \<open>y\<close> (numpy's \<^verbatim>\<open>true_divide\<close>): \<open>y\<close> is
  converted to float64, so a zero divisor is \<open>+0.0\<close>, and the quotient is rounded. numpy raises
  no exception on a zero divisor: it gives NaN for \<open>0 / 0\<close> and an infinity with the sign
  of \<open>x\<close> otherwise (with a RuntimeWarning, under its default error settings).
\<close>

fun np_divide :: "fval \<Rightarrow> int \<Rightarrow> fval" where
  "np_divide (Fin a) y =
     (if y = 0 then (if a = 0 then NaN else if 0 < a then PosInf else NegInf)
      else Fin (round53 (a / round53 (real_of_int y))))"
| "np_divide PosInf y = (if 0 \<le> y then PosInf else NegInf)"
| "np_divide NegInf y = (if 0 \<le> y then NegInf else PosInf)"
| "np_divide NaN y = NaN"

text \<open>
  \<open>x < y\<close> on float64, false when either side is NaN (\<^verbatim>\<open>cm[i, j] > thresh\<close> is
  \<open>fval_less thresh (cm[i, j])\<close>), and the maximum that numpy's \<^verbatim>\<open>max()\<close> folds with, in
  which NaN wins.
\<close>

fun fval_less :: "fval \<Rightarrow> fval \<Rightarrow> bool" where
  "fval_less NaN y = False"
| "fval_less x NaN = False"
| "fval_less x NegInf = False"
| "fval_less NegInf y = True"
| "fval_less PosInf y = False"
| "fval_less (Fin a) PosInf = True"
| "fval_less (Fin a) (Fin b) = (a < b)"

fun fval_max :: "fval \<Rightarrow> fval \<Rightarrow> fval" where
  "fval_max NaN y = NaN"
| "fval_max x NaN = NaN"
| "fval_max x y = (if fval_less x y then y else x)"

text \<open>
  The arrays live in a store; a new array is appended to it, and no operation below
  writes to an array that exists. \<^verbatim>\<open>cm\<close> is the confusion matrix the caller passes: a
  two-dimensional array of integer counts (what \<^verbatim>\<open>sklearn.metrics.confusion_matrix\<close>
  returns), given by its address among the integer arrays. Float arrays are what
  \<^verbatim>\<open>astype('float')\<close> and the division create. A matrix is the list of its rows.
\<close>

record np_store =
  int_arrays :: "int list list list"
  float_arrays :: "fval list list list"

datatype np_ref = Int_ref addr | Float_ref addr

datatype np_value = Int_matrix "int list list" | Float_matrix "fval list list"

definition np_read :: "np_store \<Rightarrow> np_ref \<Rightarrow> np_value" where
  "np_read st r =
     (case r of Int_ref a \<Rightarrow> Int_matrix (int_arrays st ! a)
      | Float_ref a \<Rightarrow> Float_matrix (float_arrays st ! a))"

text \<open>\<^verbatim>\<open>a.astype('float')\<close>: a new float array, each entry converted to float64.\<close>

definition astype_float :: "np_store \<Rightarrow> addr \<Rightarrow> np_store \<times> addr" where
  "astype_float st a =
     (st\<lparr>float_arrays := float_arrays st @
          [map (map (\<lambda>v. Fin (round53 (real_of_int v)))) (int_arrays st ! a)]\<rparr>,
      length (float_arrays st))"

text \<open>
  \<^verbatim>\<open>a.sum(axis=1)[:, numpy.newaxis]\<close>: a new array of the row sums, seen as a column (one
  row of one entry for each row of \<open>a\<close>).
\<close>

definition sum_axis1 :: "np_store \<Rightarrow> addr \<Rightarrow> np_store \<times> addr" where
  "sum_axis1 st a =
     (st\<lparr>int_arrays := int_arrays st @ [map (\<lambda>row. [sum_list row]) (int_arrays st ! a)]\<rparr>,
      length (int_arrays st))"

text \<open>
  \<^verbatim>\<open>x / s\<close> for a float array \<open>x\<close> and a column \<open>s\<close> of integers with as many rows:
  broadcasting divides every entry of row \<open>i\<close> of \<open>x\<close> by the one entry of row \<open>i\<close> of
  \<open>s\<close>. The quotient is a new array.
\<close>

definition true_divide :: "np_store \<Rightarrow> addr \<Rightarrow> addr \<Rightarrow> np_store \<times> addr" where
  "true_divide st x s =
     (st\<lparr>float_arrays := float_arrays st @
          [map2 (\<lambda>row srow. map (\<lambda>v. np_divide v (srow ! 0)) row)
             (float_arrays st ! x) (int_arrays st ! s)]\<rparr>,
      length (float_arrays st))"

text \<open>The entries of a matrix as floats, for \<^verbatim>\<open>cm.max() / 2.\<close> and the comparison with it.\<close>

fun as_floats :: "np_value \<Rightarrow> fval list list" where
  "as_floats (Int_matrix m) = map (map (\<lambda>v. Fin (round53 (real_of_int v)))) m"
| "as_floats (Float_matrix m) = m"

text \<open>\<^verbatim>\<open>x / 2.\<close> on a float.\<close>

fun halve :: "fval \<Rightarrow> fval" where
  "halve (Fin a) = Fin (a / 2)"
| "halve x = x"

text \<open>One entry of a matrix, as \<^verbatim>\<open>cm[i, j]\<close> reads it.\<close>

datatype np_cell = Int_cell int | Float_cell fval

fun np_item :: "np_value \<Rightarrow> nat \<Rightarrow> nat \<Rightarrow> np_cell" where
  "np_item (Int_matrix m) i j = Int_cell (m ! i ! j)"
| "np_item (Float_matrix m) i j = Float_cell (m ! i ! j)"

text \<open>
  The calls the function makes on the console and on the current figure, in order.
  \<open>Text j i v fmt color\<close> is the call of \<^verbatim>\<open>plt.text\<close> at column \<open>j\<close> and row \<open>i\<close> with
  the text \<^verbatim>\<open>format(v, fmt)\<close> and the colour \<open>color\<close>; the formatting of the number is left
  to \<^verbatim>\<open>format\<close>.
\<close>

datatype plt_call =
    Print_text string
  | Print_array np_value
  | Imshow np_value
  | Title string
  | Colorbar
  | Xticks "nat list" "string list" nat
  | Yticks "nat list" "string list"
  | Text nat nat np_cell string string
  | Tight_layout
  | Ylabel string
  | Xlabel string

text \<open>
  The loop over \<^verbatim>\<open>itertools.product(range(cm.shape[0]), range(cm.shape[1]))\<close>: the rows in
  order, and in each row the columns in order.
\<close>

definition annotate :: "np_value \<Rightarrow> string \<Rightarrow> fval \<Rightarrow> plt_call list" where
  "annotate cm fmt thresh =
     concat (map (\<lambda>i. map (\<lambda>j. Text j i (np_item cm i j) fmt
                (if fval_less thresh (as_floats cm ! i ! j) then ''white'' else ''black''))
              [0..<length (as_floats cm ! 0)]) [0..<length (as_floats cm)])"

text \<open>
  The function. The \<^verbatim>\<open>if normalize\<close> branch rebinds the local name \<^verbatim>\<open>cm\<close> to the array the
  division creates; the other branch leaves it bound to the caller's array. \<^verbatim>\<open>cm.max()\<close>
  raises \<open>ValueError\<close> on an array with no entry, after the matrix has been printed and
  shown. The result is the store after the call, the calls made, and the exception the
  function raises, if it raises one. The parameter \<^verbatim>\<open>normalize\<close> is \<open>normalize'\<close> here (the
  name is taken in HOL). The colour map \<^verbatim>\<open>cmap\<close> is passed on to \<^verbatim>\<open>imshow\<close>
  unread and is left out.
\<close>

definition plot_confusion_matrix ::
  "addr \<Rightarrow> string list \<Rightarrow> bool \<Rightarrow> string \<Rightarrow> np_store \<Rightarrow> np_store \<times> plt_call list \<times> py_error option" where
  "plot_confusion_matrix cm classes normalize' title st =
     (case (if normalize' then
              (case astype_float st cm of (st1, x) \<Rightarrow>
               case sum_axis1 st1 cm of (st2, s) \<Rightarrow>
               case true_divide st2 x s of (st3, q) \<Rightarrow>
                 (st3, Float_ref q, ''Normalized confusion matrix''))
            else (st, Int_ref cm, ''Confusion matrix, without normalization''))
      of (st', cm', msg) \<Rightarrow>
        (let shown = np_read st' cm';
             calls = [Print_text msg, Print_array shown, Imshow shown, Title title, Colorbar,
                      Xticks [0..<length classes] classes 45, Yticks [0..<length classes] classes];
             fmt = (if normalize' then ''.2f'' else ''d'');
             m = as_floats shown
         in if concat m = [] then (st', calls, Some ValueError)
            else
              (st', calls @ annotate shown fmt (halve (foldl fval_max (hd (concat m)) (tl (concat m))))
                      @ [Tight_layout, Ylabel ''True label'', Xlabel ''Predicted label''],
               None)))"

text \<open>
  The array the normalizing branch computes from the matrix \<open>m\<close>: every entry divided by
  the sum of its row.
\<close>

definition row_quotients :: "int list list \<Rightarrow> fval list list" where
  "row_quotients m =
     map (\<lambda>row. map (\<lambda>v. np_divide (Fin (round53 (real_of_int v))) (sum_list row)) row) m"

subsection \<open>getBranchNames\<close>

text \<open>
  \<^verbatim>\<open>sub in name\<close> on Python strings: \<open>sub\<close> occurs in \<open>name\<close> as a contiguous run of
  characters, starting at some position of \<open>name\<close> (or at its end, for the empty \<open>sub\<close>).
\<close>

fun str_in :: "string \<Rightarrow> string \<Rightarrow> bool" where
  "str_in sub [] = (sub = [])"
| "str_in sub (c # cs) = (prefix sub (c # cs) \<or> str_in sub cs)"

text \<open>
  A \<^verbatim>\<open>TTree\<close> is read only through \<^verbatim>\<open>GetListOfBranches()\<close> and \<^verbatim>\<open>GetName()\<close>, so it is
  modelled as the list of its branch names in the order the tree lists them. The loop
  body is the chain of five \<^verbatim>\<open>if ... in name: continue\<close> tests in the order of the source.
\<close>

type_synonym TTree = "string list"

fun getBranchNames_loop :: "string list \<Rightarrow> string list \<Rightarrow> string list" where
  "getBranchNames_loop [] treeVars = treeVars"
| "getBranchNames_loop (name # branches) treeVars =
     (if str_in ''nJets'' name then getBranchNames_loop branches treeVars
      else if str_in ''SoftDropMass'' name then getBranchNames_loop branches treeVars
      else if str_in ''mass'' name then getBranchNames_loop branches treeVars
      else if str_in ''gen'' name then getBranchNames_loop branches treeVars
      else if str_in ''pt'' name then getBranchNames_loop branches treeVars
      else getBranchNames_loop branches (treeVars @ [name]))"

definition getBranchNames :: "TTree \<Rightarrow> string list" where
  "getBranchNames tree = getBranchNames_loop tree []"

subsection \<open>appendTreeArray\<close>

text \<open>
  Python objects live in a store: a list of objects, an object's address being its
  position. Creating an object appends it to the store, so the addresses below
  \<open>length h\<close> are the objects that existed before a call. Three kinds of object occur:
  a numpy structured array (its rows, each row the fields \<open>(name, value)\<close> in the order
  of the array's dtype), a Python list of field values (what \<^verbatim>\<open>list(entry)\<close> builds),
  and a Python list of references to other lists (\<^verbatim>\<open>tmpArray\<close>, \<^verbatim>\<open>newArray\<close>).
\<close>

type_synonym 'v entry = "(string \<times> 'v) list"

datatype 'v obj =
    Struct_array "'v entry list"
  | Value_list "'v list"
  | Ref_list "addr list"

type_synonym 'v heap = "'v obj list"

definition alloc :: "'v heap \<Rightarrow> 'v obj \<Rightarrow> 'v heap \<times> addr" where
  "alloc h ob = (h @ [ob], length h)"

text \<open>\<^verbatim>\<open>list(entry)\<close>: the field values of one row, in field order.\<close>

definition list_of_entry :: "'v entry \<Rightarrow> 'v list" where
  "list_of_entry entry = map snd entry"

text \<open>\<^verbatim>\<open>l.append(a)\<close> on the list object at address \<open>l\<close>: the only write to an existing object.\<close>

definition list_append :: "'v heap \<Rightarrow> addr \<Rightarrow> addr \<Rightarrow> 'v heap" where
  "list_append h l a =
     (case h ! l of Ref_list rs \<Rightarrow> h[l := Ref_list (rs @ [a])] | _ \<Rightarrow> h)"

text \<open>
  The loop \<^verbatim>\<open>for entry in array[:]\<close>: the slice is a view of the rows, read in order; each
  iteration builds the list \<^verbatim>\<open>a\<close> and appends a reference to it to \<^verbatim>\<open>tmpArray\<close>.
\<close>

fun appendTreeArray_loop :: "'v entry list \<Rightarrow> addr \<Rightarrow> 'v heap \<Rightarrow> 'v heap" where
  "appendTreeArray_loop [] tmpArray h = h"
| "appendTreeArray_loop (entry # entries) tmpArray h =
     (case alloc h (Value_list (list_of_entry entry)) of
        (h1, a) \<Rightarrow> appendTreeArray_loop entries tmpArray (list_append h1 tmpArray a))"

text \<open>
  \<^verbatim>\<open>copy.copy(tmpArray)\<close> is a shallow copy: a new list object holding the same references.
  The call returns the address of \<^verbatim>\<open>newArray\<close> and the store after the call. An argument
  that is no structured array is outside the function's input type (\<open>TypeError\<close>).
\<close>

definition appendTreeArray :: "addr \<Rightarrow> 'v heap \<Rightarrow> py_error + addr \<times> 'v heap" where
  "appendTreeArray array h =
     (case h ! array of
        Struct_array rows \<Rightarrow>
          (case alloc h (Ref_list []) of
             (h1, tmpArray) \<Rightarrow>
               (let h2 = appendTreeArray_loop rows tmpArray h1 in
                case alloc h2 (h2 ! tmpArray) of
                  (h3, newArray) \<Rightarrow> Inr (newArray, h3)))
      | _ \<Rightarrow> Inl TypeError)"

text \<open>The nested sequence a list of lists stands for: each reference replaced by its list.\<close>

definition rows_at :: "'v heap \<Rightarrow> addr \<Rightarrow> 'v list list" where
  "rows_at h a =
     (case h ! a of
        Ref_list rs \<Rightarrow> map (\<lambda>r. case h ! r of Value_list vs \<Rightarrow> vs | _ \<Rightarrow> []) rs
      | _ \<Rightarrow> [])"

subsection \<open>randomizeData\<close>

text \<open>
  \<^verbatim>\<open>array\<close> is a Python list of pools, each pool a list object that the loop mutates with
  \<^verbatim>\<open>pop()\<close>. The pools live in a store \<open>pools :: addr \<Rightarrow> 'a list\<close> (the rows each list
  object holds), and \<^verbatim>\<open>array\<close> is the list of the pools' addresses, so that the same list
  object standing at two positions of \<^verbatim>\<open>array\<close> is one address occurring twice.
\<close>

text \<open>
  The counting loop \<^verbatim>\<open>for iArray in range(len(array)): nEvents = nEvents + len(array[iArray])\<close>,
  on the positions of \<^verbatim>\<open>array\<close> that are still to be visited.
\<close>

fun randomizeData_count :: "addr list \<Rightarrow> (addr \<Rightarrow> 'a list) \<Rightarrow> int \<Rightarrow> int" where
  "randomizeData_count [] h nEvents = nEvents"
| "randomizeData_count (p # ps) h nEvents =
     randomizeData_count ps h (nEvents + int (length (h p)))"

text \<open>
  The state of the function: the store and the local variables. \<^verbatim>\<open>nEvents\<close> is a Python
  integer; the labels in \<^verbatim>\<open>targetData\<close> are the values of \<^verbatim>\<open>rng\<close>, which are positions of
  \<^verbatim>\<open>array\<close>.
\<close>

record 'a rd_state =
  pools :: "addr \<Rightarrow> 'a list"
  trainData :: "'a list"
  targetData :: "nat list"
  nEvents :: int

text \<open>
  The body of the \<^verbatim>\<open>while\<close> loop for one value \<open>rng\<close> of \<^verbatim>\<open>random.randint(0, len(array)-1)\<close>.
  \<^verbatim>\<open>array[rng].pop()\<close> removes and returns the last row of the pool; it is called only on
  a pool that is not empty.
\<close>

definition randomizeData_body :: "addr list \<Rightarrow> nat \<Rightarrow> 'a rd_state \<Rightarrow> 'a rd_state" where
  "randomizeData_body array rng s =
     (if length (pools s (array ! rng)) > 0 then
        s\<lparr>pools := (pools s)(array ! rng := butlast (pools s (array ! rng))),
          trainData := trainData s @ [last (pools s (array ! rng))],
          targetData := targetData s @ [rng],
          nEvents := nEvents s - 1\<rparr>
      else s)"

text \<open>
  The \<^verbatim>\<open>while nEvents > 0\<close> loop. The random source is the list \<open>draws\<close> of the values that
  the successive calls of \<^verbatim>\<open>random.randint(0, len(array)-1)\<close> return, each a position of
  \<^verbatim>\<open>array\<close>; one iteration consumes one draw. The loop can run forever, so the result is
  an option: \<open>Some s\<close> when the loop has ended in state \<open>s\<close> within the given draws (the
  draws that are left are not read), \<open>None\<close> when the loop is still running after the
  last of them.
\<close>

fun randomizeData_loop :: "nat list \<Rightarrow> addr list \<Rightarrow> 'a rd_state \<Rightarrow> 'a rd_state option" where
  "randomizeData_loop [] array s = (if nEvents s > 0 then None else Some s)"
| "randomizeData_loop (rng # draws) array s =
     (if nEvents s > 0 then randomizeData_loop draws array (randomizeData_body array rng s)
      else Some s)"

text \<open>
  The function returns the pair \<^verbatim>\<open>(trainData, targetData)\<close>; the model returns with it the
  store after the call, which holds what the call has left in the caller's pools.
\<close>

definition randomizeData ::
  "nat list \<Rightarrow> addr list \<Rightarrow> (addr \<Rightarrow> 'a list) \<Rightarrow> (('a list \<times> nat list) \<times> (addr \<Rightarrow> 'a list)) option" where
  "randomizeData draws array h =
     map_option (\<lambda>s. ((trainData s, targetData s), pools s))
       (randomizeData_loop draws array
          \<lparr>pools = h, trainData = [], targetData = [], nEvents = randomizeData_count array h 0\<rparr>)"

text \<open>
  \<^verbatim>\<open>random.randint\<close> belongs to the standard library and is a parameter: \<open>randint g a b\<close> is
  the integer that \<^verbatim>\<open>random.randint(a, b)\<close> returns when the generator is in state \<open>g\<close>,
  with the generator's next state. The library promises \<open>a \<le> N \<le> b\<close> for the value \<open>N\<close>,
  every such value being equally likely, and raises \<open>ValueError\<close> when \<open>b < a\<close>. The
  loop calls it with the lower bound 0, so the value is a natural number; that it does
  not exceed the upper bound is a hypothesis where it is needed.

  The \<^verbatim>\<open>while\<close> loop with this call in it. \<open>n\<close> is the number of iterations the run is
  followed for: the result is \<open>None\<close> when the loop is still running after them,
  \<open>Some (Inr s)\<close> when it has ended in state \<open>s\<close>, and \<open>Some (Inl e)\<close> when it has raised
  \<open>e\<close>: \<^verbatim>\<open>randint(0, -1)\<close> raises \<open>ValueError\<close>, and \<^verbatim>\<open>array[rng]\<close> raises \<open>IndexError\<close> for an
  \<open>rng\<close> that is no position of \<^verbatim>\<open>array\<close>.
\<close>

fun randomizeData_while ::
  "('g \<Rightarrow> int \<Rightarrow> int \<Rightarrow> nat \<times> 'g) \<Rightarrow> nat \<Rightarrow> 'g \<Rightarrow> addr list \<Rightarrow> 'a rd_state
     \<Rightarrow> (py_error + 'a rd_state) option" where
  "randomizeData_while randint 0 g array s = (if nEvents s > 0 then None else Some (Inr s))"
| "randomizeData_while randint (Suc n) g array s =
     (if nEvents s > 0 then
        (if int (length array) - 1 < 0 then Some (Inl ValueError)
         else case randint g 0 (int (length array) - 1) of
           (rng, g') \<Rightarrow>
             if length array \<le> rng then Some (Inl IndexError)
             else randomizeData_while randint n g' array (randomizeData_body array rng s))
      else Some (Inr s))"

text \<open>The function with \<^verbatim>\<open>random.randint\<close> in it: the counting loop, then the \<^verbatim>\<open>while\<close> loop.\<close>

definition randomizeData_py ::
  "('g \<Rightarrow> int \<Rightarrow> int \<Rightarrow> nat \<times> 'g) \<Rightarrow> nat \<Rightarrow> 'g \<Rightarrow> addr list \<Rightarrow> (addr \<Rightarrow> 'a list)
     \<Rightarrow> (py_error + ('a list \<times> nat list) \<times> (addr \<Rightarrow> 'a list)) option" where
  "randomizeData_py randint n g array h =
     map_option (map_sum id (\<lambda>s. ((trainData s, targetData s), pools s)))
       (randomizeData_while randint n g array
          \<lparr>pools = h, trainData = [], targetData = [], nEvents = randomizeData_count array h 0\<rparr>)"

text \<open>
  The values that \<open>n\<close> successive calls \<^verbatim>\<open>random.randint(0, b)\<close> return, from the generator
  state \<open>g\<close> on: the draws of the first \<open>n\<close> iterations.
\<close>

fun randint_draws :: "('g \<Rightarrow> int \<Rightarrow> int \<Rightarrow> nat \<times> 'g) \<Rightarrow> nat \<Rightarrow> 'g \<Rightarrow> int \<Rightarrow> nat list" where
  "randint_draws randint 0 g b = []"
| "randint_draws randint (Suc n) g b =
     (case randint g 0 b of (rng, g') \<Rightarrow> rng # randint_draws randint n g' b)"

text \<open>
  For the proofs: the rows of \<open>tr\<close> standing where \<open>tg\<close> holds the label \<open>i\<close>, and the
  invariant of the \<^verbatim>\<open>while\<close> loop for the store \<open>h\<close> the function was called with: the
  two outputs have one length, every label is a position of \<open>array\<close>, pool \<open>i\<close> at the
  start is what is left of it followed by the rows labelled \<open>i\<close>, last row first, the
  other list objects are untouched, no row is lost, and \<open>nEvents\<close> counts the rows left.
\<close>

definition labelled :: "nat \<Rightarrow> 'a list \<Rightarrow> nat list \<Rightarrow> 'a list" where
  "labelled i tr tg = map fst (filter (\<lambda>p. snd p = i) (zip tr tg))"

definition rd_inv :: "(addr \<Rightarrow> 'a list) \<Rightarrow> addr list \<Rightarrow> 'a rd_state \<Rightarrow> bool" where
  "rd_inv h array s \<longleftrightarrow>
     length (trainData s) = length (targetData s)
   \<and> (\<forall>l\<in>set (targetData s). l < length array)
   \<and> (\<forall>i<length array.
         h (array ! i) = pools s (array ! i) @ rev (labelled i (trainData s) (targetData s)))
   \<and> (\<forall>a. a \<notin> set array \<longrightarrow> pools s a = h a)
   \<and> mset (trainData s) + mset (concat (map (pools s) array)) = mset (concat (map h array))
   \<and> nEvents s = int (length (concat (map (pools s) array)))"

subsection \<open>The pyplot state\<close>

text \<open>
  \<^verbatim>\<open>matplotlib.pyplot\<close> keeps the open figures, one of them current, and in the current
  figure a current axes. A figure is the list of its axes, the current axes last; the
  open figures are a list, the current figure last. An axes holds what has been drawn on
  it, in order: a line (\<^verbatim>\<open>ax.plot(data, label=...)\<close>) or a histogram (\<^verbatim>\<open>plt.hist\<close> with its
  bins, range, label, colour, \<^verbatim>\<open>histtype\<close>, \<^verbatim>\<open>normed\<close> and \<^verbatim>\<open>log\<close>). The state also records
  every \<^verbatim>\<open>savefig\<close> (the file name and the figure as it is at that moment, in order) and the
  number of figures created. A data series is a list of values of any type \<open>'p\<close>.
\<close>

datatype 'p artist =
    Line "'p list" string
  | Hist "'p list" nat "int \<times> int" string string string bool bool

datatype legend_loc = Loc string | Loc_code nat

record 'p axes =
  subplot_spec :: "nat \<times> nat \<times> nat"
  artists :: "'p artist list"
  legend :: "legend_loc option"
  xlabel :: string
  ylabel :: string

record 'p pyplot =
  figures :: "'p axes list list"
  files :: "(string \<times> 'p axes list) list"
  created :: nat

definition new_axes :: "nat \<times> nat \<times> nat \<Rightarrow> 'p axes" where
  "new_axes spec = \<lparr>subplot_spec = spec, artists = [], legend = None, xlabel = [], ylabel = []\<rparr>"

text \<open>\<^verbatim>\<open>plt.figure()\<close>: a new, empty figure, which becomes the current one.\<close>

definition plt_figure :: "'p pyplot \<Rightarrow> 'p pyplot" where
  "plt_figure st = st\<lparr>figures := figures st @ [[]], created := created st + 1\<rparr>"

text \<open>A call that needs the current figure creates one when no figure is open.\<close>

definition gcf :: "'p pyplot \<Rightarrow> 'p pyplot" where
  "gcf st = (if figures st = [] then plt_figure st else st)"

definition on_figure :: "('p axes list \<Rightarrow> 'p axes list) \<Rightarrow> 'p pyplot \<Rightarrow> 'p pyplot" where
  "on_figure f st =
     (let st' = gcf st in st'\<lparr>figures := butlast (figures st') @ [f (last (figures st'))]\<rparr>)"

text \<open>
  \<^verbatim>\<open>plt.subplot(r, c, i)\<close> in a figure that has no axes at that place yet (the only use
  here): a new axes, which becomes the current one.
\<close>

definition plt_subplot :: "nat \<Rightarrow> nat \<Rightarrow> nat \<Rightarrow> 'p pyplot \<Rightarrow> 'p pyplot" where
  "plt_subplot r c i = on_figure (\<lambda>fig. fig @ [new_axes (r, c, i)])"

text \<open>
  A call on the current axes; a figure without axes gets the default one first. The
  methods of \<^verbatim>\<open>ax\<close> in plotPerformance are calls on the current axes, \<^verbatim>\<open>ax\<close> being the axes
  the last \<^verbatim>\<open>plt.subplot\<close> returned.
\<close>

definition on_axes :: "('p axes \<Rightarrow> 'p axes) \<Rightarrow> 'p pyplot \<Rightarrow> 'p pyplot" where
  "on_axes f =
     on_figure (\<lambda>fig. let fig' = (if fig = [] then [new_axes (1, 1, 1)] else fig)
                      in butlast fig' @ [f (last fig')])"

definition ax_plot :: "'p list \<Rightarrow> string \<Rightarrow> 'p pyplot \<Rightarrow> 'p pyplot" where
  "ax_plot d l = on_axes (\<lambda>a. a\<lparr>artists := artists a @ [Line d l]\<rparr>)"

definition plt_hist ::
  "'p list \<Rightarrow> nat \<Rightarrow> int \<times> int \<Rightarrow> string \<Rightarrow> string \<Rightarrow> string \<Rightarrow> bool \<Rightarrow> bool \<Rightarrow> 'p pyplot \<Rightarrow> 'p pyplot" where
  "plt_hist d bins range' l color histtype normed log' =
     on_axes (\<lambda>a. a\<lparr>artists := artists a @ [Hist d bins range' l color histtype normed log']\<rparr>)"

definition plt_legend :: "legend_loc \<Rightarrow> 'p pyplot \<Rightarrow> 'p pyplot" where
  "plt_legend loc = on_axes (\<lambda>a. a\<lparr>legend := Some loc\<rparr>)"

definition plt_xlabel :: "string \<Rightarrow> 'p pyplot \<Rightarrow> 'p pyplot" where
  "plt_xlabel s = on_axes (\<lambda>a. a\<lparr>xlabel := s\<rparr>)"

definition plt_ylabel :: "string \<Rightarrow> 'p pyplot \<Rightarrow> 'p pyplot" where
  "plt_ylabel s = on_axes (\<lambda>a. a\<lparr>ylabel := s\<rparr>)"

text \<open>\<^verbatim>\<open>plt.savefig(name)\<close> writes the whole current figure, every axes of it.\<close>

definition plt_savefig :: "string \<Rightarrow> 'p pyplot \<Rightarrow> 'p pyplot" where
  "plt_savefig name st =
     (let st' = gcf st in st'\<lparr>files := files st' @ [(name, last (figures st'))]\<rparr>)"

text \<open>\<^verbatim>\<open>plt.close()\<close> closes the current figure.\<close>

definition plt_close :: "'p pyplot \<Rightarrow> 'p pyplot" where
  "plt_close st = st\<lparr>figures := butlast (figures st)\<rparr>"

subsection \<open>plotPerformance\<close>

text \<open>
  \<^verbatim>\<open>loss\<close> and \<^verbatim>\<open>acc\<close> are sequences of series. \<^verbatim>\<open>loss[0]\<close>, \<^verbatim>\<open>loss[1]\<close> and \<^verbatim>\<open>acc[0]\<close> raise
  \<open>IndexError\<close> on a sequence that is too short; what has been drawn and saved before
  stays. The result is the pyplot state after the call and the exception raised, if any.
  Writing the files is left to \<^verbatim>\<open>savefig\<close>: the directory \<^verbatim>\<open>plots/\<close> is taken to exist.
\<close>

definition plotPerformance ::
  "'p list list \<Rightarrow> 'p list list \<Rightarrow> 'p pyplot \<Rightarrow> 'p pyplot \<times> py_error option" where
  "plotPerformance loss acc st =
     (let st1 = plt_subplot 2 2 1 (plt_figure st) in
      if length loss \<le> 0 then (st1, Some IndexError)
      else let st2 = ax_plot (loss ! 0) ''loss'' st1 in
      if length loss \<le> 1 then (st2, Some IndexError)
      else let st3 = ax_plot (loss ! 1) ''val_loss'' st2;
               st4 = plt_legend (Loc ''upper right'') st3;
               st5 = plt_xlabel ''epoch'' st4;
               st6 = plt_ylabel ''loss'' st5;
               st7 = plt_savefig ''plots/loss.pdf'' st6;
               st8 = plt_savefig ''plots/loss.png'' st7;
               st9 = plt_subplot 2 2 2 st8 in
      if length acc \<le> 0 then (st9, Some IndexError)
      else let st10 = ax_plot (acc ! 0) ''acc'' st9;
               st11 = ax_plot (acc ! 0) ''val_acc'' st10;
               st12 = plt_legend (Loc ''upper left'') st11;
               st13 = plt_xlabel ''epoch'' st12;
               st14 = plt_ylabel ''acc'' st13;
               st15 = plt_savefig ''plots/acc.pdf'' st14;
               st16 = plt_savefig ''plots/acc.png'' st15
           in (st16, None))"

subsection \<open>plotProbabilities\<close>

text \<open>
  \<^verbatim>\<open>probs\<close> is a list of triples \<^verbatim>\<open>[probArray, label, color]\<close>. A probability array has one
  row for each event and one column for each class; \<^verbatim>\<open>probArray.T[i]\<close> is its column \<open>i\<close>,
  and raises \<open>IndexError\<close> when the array has no such column.
\<close>

record 'p prob_array =
  ncols :: nat
  prob_rows :: "'p list list"

definition column :: "nat \<Rightarrow> 'p prob_array \<Rightarrow> py_error + 'p list" where
  "column i a = (if i < ncols a then Inr (map (\<lambda>r. r ! i) (prob_rows a)) else Inl IndexError)"

type_synonym 'p probs = "('p prob_array \<times> string \<times> string) list"

text \<open>
  The body of the inner loop, for the class of interest \<open>iProb\<close> and the class \<open>jProb\<close>:
  the six statements from \<^verbatim>\<open>plt.figure()\<close> to \<^verbatim>\<open>plt.close()\<close>, in the order of the source.
  \<^verbatim>\<open>loc=3\<close> with \<^verbatim>\<open>ncol=6, mode="expand"\<close> and the anchor box is recorded as \<open>Loc_code 3\<close>.
\<close>

definition plotProbabilities_body ::
  "'p probs \<Rightarrow> nat \<Rightarrow> nat \<Rightarrow> 'p pyplot \<Rightarrow> 'p pyplot \<times> py_error option" where
  "plotProbabilities_body probs iProb jProb st =
     (let st1 = plt_figure st;
          st2 = plt_xlabel (''Probability for '' @ fst (snd (probs ! iProb)) @ '' Classification'') st1
      in case column iProb (fst (probs ! jProb)) of
           Inl e \<Rightarrow> (st2, Some e)
         | Inr d \<Rightarrow>
             (let st3 = plt_hist d 20 (0, 1) (fst (snd (probs ! jProb))) (snd (snd (probs ! jProb)))
                          ''step'' True True st2;
                  st4 = plt_legend (Loc_code 3) st3;
                  st5 = plt_savefig (''prob_'' @ fst (snd (probs ! iProb)) @ ''.pdf'') st4;
                  st6 = plt_close st5
              in (st6, None)))"

text \<open>
  The two loops \<^verbatim>\<open>for iProb in range(len(probs))\<close> and \<^verbatim>\<open>for jProb in range(len(probs))\<close>, each
  on the indices that are still to come; an exception ends both.
\<close>

fun plotProbabilities_inner ::
  "'p probs \<Rightarrow> nat \<Rightarrow> nat list \<Rightarrow> 'p pyplot \<Rightarrow> 'p pyplot \<times> py_error option" where
  "plotProbabilities_inner probs iProb [] st = (st, None)"
| "plotProbabilities_inner probs iProb (jProb # js) st =
     (case plotProbabilities_body probs iProb jProb st of
        (st', None) \<Rightarrow> plotProbabilities_inner probs iProb js st'
      | (st', Some e) \<Rightarrow> (st', Some e))"

fun plotProbabilities_outer ::
  "'p probs \<Rightarrow> nat list \<Rightarrow> 'p pyplot \<Rightarrow> 'p pyplot \<times> py_error option" where
  "plotProbabilities_outer probs [] st = (st, None)"
| "plotProbabilities_outer probs (iProb # is) st =
     (case plotProbabilities_inner probs iProb [0..<length probs] st of
        (st', None) \<Rightarrow> plotProbabilities_outer probs is st'
      | (st', Some e) \<Rightarrow> (st', Some e))"

definition plotProbabilities :: "'p probs \<Rightarrow> 'p pyplot \<Rightarrow> 'p pyplot \<times> py_error option" where
  "plotProbabilities probs st = plotProbabilities_outer probs [0..<length probs] st"

text \<open>
  What one pass of the inner loop saves: the file name, which depends on \<open>iProb\<close> only,
  and a figure with a single axes holding a single histogram, that of class \<open>jProb\<close>.
\<close>

definition saved_figure :: "'p probs \<Rightarrow> nat \<Rightarrow> nat \<Rightarrow> string \<times> 'p axes list" where
  "saved_figure probs iProb jProb =
     (''prob_'' @ fst (snd (probs ! iProb)) @ ''.pdf'',
      [\<lparr>subplot_spec = (1, 1, 1),
        artists = [Hist (map (\<lambda>r. r ! iProb) (prob_rows (fst (probs ! jProb)))) 20 (0, 1)
                     (fst (snd (probs ! jProb))) (snd (snd (probs ! jProb))) ''step'' True True],
        legend = Some (Loc_code 3),
        xlabel = ''Probability for '' @ fst (snd (probs ! iProb)) @ '' Classification'',
        ylabel = []\<rparr>])"

subsection \<open>make_keras_picklable\<close>

text \<open>
  A Python object is its identity and its attribute dictionary \<^verbatim>\<open>__dict__\<close>, of any type
  \<open>'d\<close>. The file system maps a path to the bytes of the file at that path. The state
  that \<^verbatim>\<open>__getstate__\<close> returns is the dictionary \<^verbatim>\<open>{'model_str': ...}\<close>.

  \<^verbatim>\<open>keras.models.save_model\<close> and \<^verbatim>\<open>keras.models.load_model\<close> belong to Keras and are
  parameters: \<open>save_model m\<close> is the content of the file that saving the model \<open>m\<close>
  writes, \<open>load_model b\<close> is the model that loading a file of content \<open>b\<close> returns, or
  the exception it raises. \<open>tmp\<close> is the name \<^verbatim>\<open>tempfile.NamedTemporaryFile\<close> chooses.
\<close>

record 'd py_object =
  obj_id :: addr
  attrs :: 'd

type_synonym filesystem = "string \<rightharpoonup> string"
type_synonym pickle_state = "string \<rightharpoonup> string"

text \<open>
  \<^verbatim>\<open>__getstate__\<close>: the temporary file is created empty, \<^verbatim>\<open>save_model\<close> writes the model to
  its path, \<^verbatim>\<open>fd.read()\<close> reads the file, and leaving the \<^verbatim>\<open>with\<close> block deletes it.
\<close>

definition getstate ::
  "('d py_object \<Rightarrow> string) \<Rightarrow> string \<Rightarrow> 'd py_object \<Rightarrow> filesystem \<Rightarrow> pickle_state \<times> filesystem" where
  "getstate save_model tmp self fs =
     (let fs1 = fs(tmp \<mapsto> []);
          fs2 = fs1(tmp \<mapsto> save_model self);
          model_str = (case fs2 tmp of Some b \<Rightarrow> b | None \<Rightarrow> []);
          fs3 = fs2(tmp := None)
      in ([''model_str'' \<mapsto> model_str], fs3))"

text \<open>
  \<^verbatim>\<open>__setstate__\<close>: the temporary file is created, \<^verbatim>\<open>state['model_str']\<close> (a \<open>KeyError\<close> when
  the key is missing) is written to it and flushed, \<^verbatim>\<open>load_model\<close> reads the file, the
  file is deleted, and \<^verbatim>\<open>self.__dict__\<close> becomes the loaded model's \<^verbatim>\<open>__dict__\<close>.
\<close>

definition setstate ::
  "(string \<Rightarrow> py_error + 'd py_object) \<Rightarrow> string \<Rightarrow> 'd py_object \<Rightarrow> pickle_state \<Rightarrow> filesystem
     \<Rightarrow> (py_error + 'd py_object) \<times> filesystem" where
  "setstate load_model tmp self state fs =
     (let fs1 = fs(tmp \<mapsto> []) in
      case state ''model_str'' of
        None \<Rightarrow> (Inl KeyError, fs1(tmp := None))
      | Some b \<Rightarrow>
          (let fs2 = fs1(tmp \<mapsto> b) in
           case load_model (case fs2 tmp of Some c \<Rightarrow> c | None \<Rightarrow> []) of
             Inl e \<Rightarrow> (Inl e, fs2(tmp := None))
           | Inr model \<Rightarrow> (Inr (self\<lparr>attrs := attrs model\<rparr>), fs2(tmp := None))))"

text \<open>
  The class \<^verbatim>\<open>keras.models.Model\<close>, as far as pickling reads it: its two hooks, absent
  until they are installed. make_keras_picklable assigns both.
\<close>

record 'd model_class =
  cls_getstate :: "(string \<Rightarrow> 'd py_object \<Rightarrow> filesystem \<Rightarrow> pickle_state \<times> filesystem) option"
  cls_setstate :: "(string \<Rightarrow> 'd py_object \<Rightarrow> pickle_state \<Rightarrow> filesystem
                     \<Rightarrow> (py_error + 'd py_object) \<times> filesystem) option"

definition make_keras_picklable ::
  "('d py_object \<Rightarrow> string) \<Rightarrow> (string \<Rightarrow> py_error + 'd py_object) \<Rightarrow> 'd model_class \<Rightarrow> 'd model_class" where
  "make_keras_picklable save_model load_model cls =
     cls\<lparr>cls_getstate := Some (getstate save_model), cls_setstate := Some (setstate load_model)\<rparr>"

section \<open>Properties\<close>

subsection \<open>getBranchNames: the names that pass the five tests\<close>

lemma str_in_sublist: "str_in sub name \<longleftrightarrow> sublist sub name"
  by (induction name) (simp_all add: sublist_Cons_right)

lemma str_in_iff: "str_in sub name \<longleftrightarrow> (\<exists>ps ss. name = ps @ sub @ ss)"
  by (simp add: str_in_sublist sublist_def)

lemma getBranchNames_loop_filter:
  "getBranchNames_loop branches treeVars =
     treeVars @ filter (\<lambda>name. \<not> (str_in ''nJets'' name \<or> str_in ''SoftDropMass'' name \<or>
        str_in ''mass'' name \<or> str_in ''gen'' name \<or> str_in ''pt'' name)) branches"
  by (induction branches arbitrary: treeVars) simp_all

text \<open>
  C3. For every list of branch names, getBranchNames returns exactly the names that
  contain none of the substrings "nJets", "SoftDropMass", "mass", "gen", "pt" (a
  case-sensitive test: characters are compared as they are), in the order of the input.
  The result is obtained from the input by deleting elements (\<open>subseq\<close>), the function is
  total, and the input ["pt1", "massSD", "jetAK8_eta", "nJets"] gives ["jetAK8_eta"].
  A name contains \<open>sub\<close> when it is \<open>ps @ sub @ ss\<close> for some \<open>ps\<close> and \<open>ss\<close>,
  which is \<open>sublist sub name\<close>.
\<close>

theorem getBranchNames_denylist:
  "getBranchNames tree =
     filter (\<lambda>name. \<not> (sublist ''nJets'' name \<or> sublist ''SoftDropMass'' name \<or>
        sublist ''mass'' name \<or> sublist ''gen'' name \<or> sublist ''pt'' name)) tree
   \<and> subseq (getBranchNames tree) tree
   \<and> getBranchNames [''pt1'', ''massSD'', ''jetAK8_eta'', ''nJets''] = [''jetAK8_eta'']"
proof -
  have eq: "getBranchNames t =
     filter (\<lambda>name. \<not> (sublist ''nJets'' name \<or> sublist ''SoftDropMass'' name \<or>
        sublist ''mass'' name \<or> sublist ''gen'' name \<or> sublist ''pt'' name)) t" for t
    by (simp add: getBranchNames_def getBranchNames_loop_filter str_in_sublist)
  have sub: "subseq (getBranchNames tree) tree"
    unfolding eq by (rule subseq_filter_left)
  have ex: "getBranchNames [''pt1'', ''massSD'', ''jetAK8_eta'', ''nJets''] = [''jetAK8_eta'']"
    by (simp add: getBranchNames_def)
  from eq sub ex show ?thesis by blast
qed

subsection \<open>appendTreeArray: the rows are copied, the store is otherwise unchanged\<close>

lemma appendTreeArray_loop_inv:
  assumes "tmpArray < length h" and "h ! tmpArray = Ref_list rs"
  shows "length (appendTreeArray_loop entries tmpArray h) = length h + length entries
    \<and> (\<forall>a<length h. a \<noteq> tmpArray \<longrightarrow> appendTreeArray_loop entries tmpArray h ! a = h ! a)
    \<and> appendTreeArray_loop entries tmpArray h ! tmpArray =
        Ref_list (rs @ [length h ..< length h + length entries])
    \<and> (\<forall>i<length entries. appendTreeArray_loop entries tmpArray h ! (length h + i) =
          Value_list (list_of_entry (entries ! i)))"
  using assms
proof (induction entries arbitrary: h rs)
  case Nil
  then show ?case by simp
next
  case (Cons entry entries)
  let ?h1 = "h @ [Value_list (list_of_entry entry)]"
  let ?h2 = "list_append ?h1 tmpArray (length h)"
  have h2: "?h2 = ?h1[tmpArray := Ref_list (rs @ [length h])]"
    using Cons.prems by (simp add: list_append_def nth_append)
  have len2: "length ?h2 = Suc (length h)" by (simp add: h2)
  have t2: "tmpArray < length ?h2" using Cons.prems by (simp add: h2)
  have r2: "?h2 ! tmpArray = Ref_list (rs @ [length h])"
    using Cons.prems by (simp add: h2)
  note IH = Cons.IH [OF t2 r2]
  have step: "appendTreeArray_loop (entry # entries) tmpArray h =
      appendTreeArray_loop entries tmpArray ?h2"
    by (simp add: alloc_def)
  have old: "\<And>a. a < length h \<Longrightarrow> a \<noteq> tmpArray \<Longrightarrow> ?h2 ! a = h ! a"
    by (simp add: h2 nth_append)
  have new: "?h2 ! length h = Value_list (list_of_entry entry)"
    using Cons.prems by (simp add: h2)
  show ?case
  proof (intro conjI allI impI)
    show "length (appendTreeArray_loop (entry # entries) tmpArray h) =
        length h + length (entry # entries)"
      using IH by (simp add: step len2 del: appendTreeArray_loop.simps)
  next
    fix a assume "a < length h" "a \<noteq> tmpArray"
    then show "appendTreeArray_loop (entry # entries) tmpArray h ! a = h ! a"
      using IH old by (simp add: step len2 del: appendTreeArray_loop.simps)
  next
    have "[length h..<length h + length (entry # entries)] =
        length h # [Suc (length h)..<Suc (length h) + length entries]"
      by (metis add_Suc_right length_Cons less_add_Suc1 upt_conv_Cons add_Suc)
    then show "appendTreeArray_loop (entry # entries) tmpArray h ! tmpArray =
        Ref_list (rs @ [length h..<length h + length (entry # entries)])"
      using IH by (simp add: step len2 del: appendTreeArray_loop.simps)
  next
    fix i assume i: "i < length (entry # entries)"
    show "appendTreeArray_loop (entry # entries) tmpArray h ! (length h + i) =
        Value_list (list_of_entry ((entry # entries) ! i))"
    proof (cases i)
      case 0
      have "length h < length ?h2" "length h \<noteq> tmpArray"
        using Cons.prems by (simp_all add: len2)
      with IH have "appendTreeArray_loop entries tmpArray ?h2 ! length h = ?h2 ! length h"
        by blast
      with 0 new show ?thesis by (simp add: step del: appendTreeArray_loop.simps)
    next
      case (Suc j)
      with i have "j < length entries" by simp
      with IH have "appendTreeArray_loop entries tmpArray ?h2 ! (length ?h2 + j) =
          Value_list (list_of_entry (entries ! j))" by blast
      with Suc show ?thesis by (simp add: step len2 del: appendTreeArray_loop.simps)
    qed
  qed
qed

text \<open>
  C4. For a structured array \<open>rows\<close> stored at address \<open>array\<close>, appendTreeArray returns
  (it raises nothing) the address of a new object, one that did not exist before the
  call; every object that existed before the call, the input among them, is unchanged
  after it; and the returned sequence has as many elements as the input has rows, its
  i-th element being the list of the i-th row's field values in field order
  (\<open>map snd\<close> of the row's fields): no value is changed and no row is dropped.
\<close>

theorem appendTreeArray_rows:
  assumes "array < length h" and "h ! array = Struct_array rows"
  shows "\<exists>newArray h'. appendTreeArray array h = Inr (newArray, h')
     \<and> length h \<le> newArray \<and> newArray < length h'
     \<and> (\<forall>a<length h. h' ! a = h ! a)
     \<and> rows_at h' newArray = map (map snd) rows
     \<and> length (rows_at h' newArray) = length rows
     \<and> (\<forall>i<length rows. rows_at h' newArray ! i = map snd (rows ! i))"
proof -
  let ?h1 = "h @ [Ref_list []]"
  let ?t = "length h"
  let ?h2 = "appendTreeArray_loop rows ?t ?h1"
  let ?h3 = "?h2 @ [?h2 ! ?t]"
  let ?n = "length ?h2"
  have t1: "?t < length ?h1" and r1: "?h1 ! ?t = Ref_list ([] @ [])" by simp_all
  note inv = appendTreeArray_loop_inv [OF t1 r1, of rows]
  have len2: "?n = Suc (length h) + length rows" using inv by simp
  have refs: "?h2 ! ?t = Ref_list [Suc (length h)..<Suc (length h) + length rows]"
    using inv by simp
  have run: "appendTreeArray array h = Inr (?n, ?h3)"
    using assms(2) by (simp add: appendTreeArray_def alloc_def Let_def)
  have frame: "\<forall>a<length h. ?h3 ! a = h ! a"
  proof (intro allI impI)
    fix a assume a: "a < length h"
    then have "a < length ?h1" "a \<noteq> ?t" by simp_all
    with inv have "?h2 ! a = ?h1 ! a" by blast
    with a show "?h3 ! a = h ! a" by (simp add: nth_append len2)
  qed
  have vals: "?h3 ! (Suc (length h) + i) = Value_list (map snd (rows ! i))"
    if "i < length rows" for i
  proof -
    from inv that have "?h2 ! (length ?h1 + i) = Value_list (list_of_entry (rows ! i))"
      by blast
    with that show ?thesis by (simp add: nth_append len2 list_of_entry_def)
  qed
  define rs where "rs = [Suc (length h)..<Suc (length h) + length rows]"
  have rs_len: "length rs = length rows"
    unfolding rs_def by (simp only: length_upt add_diff_cancel_left')
  have rs_nth: "rs ! i = Suc (length h) + i" if "i < length rows" for i
    unfolding rs_def using that by (simp only: nth_upt nat_add_left_cancel_less)
  have top: "?h3 ! ?n = Ref_list rs"
    using refs by (simp add: rs_def)
  have rows: "rows_at ?h3 ?n = map (map snd) rows"
  proof (rule nth_equalityI)
    show "length (rows_at ?h3 ?n) = length (map (map snd) rows)"
      unfolding rows_at_def top by (simp add: rs_len)
  next
    fix i assume "i < length (rows_at ?h3 ?n)"
    then have i: "i < length rows" unfolding rows_at_def top by (simp add: rs_len)
    then have "rows_at ?h3 ?n ! i =
        (case ?h3 ! (Suc (length h) + i) of Value_list vs \<Rightarrow> vs | _ \<Rightarrow> [])"
      unfolding rows_at_def top by (simp add: rs_len rs_nth)
    with i vals [OF i] show "rows_at ?h3 ?n ! i = map (map snd) rows ! i"
      by simp
  qed
  have "length h \<le> ?n" "?n < length ?h3" by (simp_all add: len2)
  with run frame rows show ?thesis by simp
qed

text \<open>A three-row, two-field array gives \<open>[[1, 2], [3, 4], [5, 6]]\<close>, the input being kept.\<close>

theorem appendTreeArray_rows_witness:
  "\<exists>newArray h'.
     appendTreeArray 0 [Struct_array [[(''a'', 1::int), (''b'', 2)], [(''a'', 3), (''b'', 4)],
        [(''a'', 5), (''b'', 6)]]] = Inr (newArray, h')
     \<and> h' ! 0 = Struct_array [[(''a'', 1::int), (''b'', 2)], [(''a'', 3), (''b'', 4)],
        [(''a'', 5), (''b'', 6)]]
     \<and> rows_at h' newArray = [[1, 2], [3, 4], [5, 6]]"
  using appendTreeArray_rows [of 0 "[Struct_array [[(''a'', 1::int), (''b'', 2)],
    [(''a'', 3), (''b'', 4)], [(''a'', 5), (''b'', 6)]]]"
    "[[(''a'', 1::int), (''b'', 2)], [(''a'', 3), (''b'', 4)], [(''a'', 5), (''b'', 6)]]"]
  by auto

subsection \<open>randomizeData: every row is drawn once, with the index of its pool\<close>

lemma randomizeData_count_total:
  "randomizeData_count array h n = n + int (length (concat (map h array)))"
  by (induction array arbitrary: n) simp_all

lemma mset_concat_pop:
  assumes "distinct array" and "a \<in> set array" and "f a = ys @ [x]"
  shows "mset (concat (map (f(a := ys)) array)) + {#x#} = mset (concat (map f array))"
  using assms
proof (induction array)
  case Nil
  then show ?case by simp
next
  case (Cons p ps)
  show ?case
  proof (cases "p = a")
    case True
    with Cons.prems have "a \<notin> set ps" by simp
    then have "map (f(a := ys)) ps = map f ps" by (intro map_cong) auto
    moreover have "(f(a := ys)) a = ys" by simp
    ultimately have "concat (map (f(a := ys)) (a # ps)) = ys @ concat (map f ps)"
      by (simp only: list.map concat.simps)
    with True Cons.prems(3) show ?thesis by (simp only: list.map concat.simps) simp
  next
    case False
    with Cons.prems have "distinct ps" "a \<in> set ps" by simp_all
    from Cons.IH [OF this Cons.prems(3)] False show ?thesis by (simp add: ac_simps)
  qed
qed

lemma length_concat_pop:
  assumes "distinct array" and "a \<in> set array" and "f a \<noteq> []"
  shows "Suc (length (concat (map (f(a := butlast (f a))) array))) = length (concat (map f array))"
proof -
  from assms(3) have "f a = butlast (f a) @ [last (f a)]" by simp
  from mset_concat_pop [of array a f "butlast (f a)" "last (f a)", OF assms(1,2) this]
  have "size (mset (concat (map (f(a := butlast (f a))) array)) + {#last (f a)#}) =
      size (mset (concat (map f array)))" by simp
  then show ?thesis by simp
qed

lemma concat_Nil_pools:
  "length (concat (map f array)) = 0 \<longleftrightarrow> (\<forall>i<length array. f (array ! i) = [])"
  by (auto simp: in_set_conv_nth all_set_conv_all_nth)

lemma labelled_snoc:
  "length tr = length tg \<Longrightarrow>
     labelled i (tr @ [x]) (tg @ [l]) =
       (if l = i then labelled i tr tg @ [x] else labelled i tr tg)"
  by (simp add: labelled_def)

lemma length_labelled:
  "length tr = length tg \<Longrightarrow> length (labelled i tr tg) = count_list tg i"
  by (induction tr tg rule: list_induct2) (simp_all add: labelled_def)

lemma rd_inv_init:
  "rd_inv h array
     \<lparr>pools = h, trainData = [], targetData = [], nEvents = randomizeData_count array h 0\<rparr>"
  by (simp add: rd_inv_def labelled_def randomizeData_count_total)

lemma rd_inv_body:
  assumes d: "distinct array" and r: "rng < length array" and inv: "rd_inv h array s"
  shows "rd_inv h array (randomizeData_body array rng s)"
proof (cases "pools s (array ! rng) = []")
  case True
  with inv show ?thesis by (simp add: randomizeData_body_def)
next
  case False
  let ?a = "array ! rng"
  let ?p = "pools s ?a"
  let ?x = "last ?p"
  let ?f = "(pools s)(?a := butlast ?p)"
  let ?s' = "randomizeData_body array rng s"
  have s': "pools ?s' = ?f" "trainData ?s' = trainData s @ [?x]"
    "targetData ?s' = targetData s @ [rng]" "nEvents ?s' = nEvents s - 1"
    using False by (simp_all add: randomizeData_body_def)
  have mem: "?a \<in> set array" using r by simp
  have split: "?p = butlast ?p @ [?x]" using False by simp
  from inv have len: "length (trainData s) = length (targetData s)"
    and lab: "\<forall>l\<in>set (targetData s). l < length array"
    and rows: "\<And>i. i < length array \<Longrightarrow>
         h (array ! i) = pools s (array ! i) @ rev (labelled i (trainData s) (targetData s))"
    and frame: "\<And>a. a \<notin> set array \<Longrightarrow> pools s a = h a"
    and ms: "mset (trainData s) + mset (concat (map (pools s) array)) = mset (concat (map h array))"
    and cnt: "nEvents s = int (length (concat (map (pools s) array)))"
    by (simp_all add: rd_inv_def)
  have 1: "length (trainData ?s') = length (targetData ?s')"
    using len by (simp add: s')
  have 2: "\<forall>l\<in>set (targetData ?s'). l < length array"
    using lab r by (simp add: s')
  have 3: "h (array ! i) = pools ?s' (array ! i) @ rev (labelled i (trainData ?s') (targetData ?s'))"
    if i: "i < length array" for i
  proof (cases "i = rng")
    case True
    have "h ?a = ?p @ rev (labelled rng (trainData s) (targetData s))"
      using rows [OF r] .
    also have "\<dots> = butlast ?p @ ?x # rev (labelled rng (trainData s) (targetData s))"
      using split by (metis append_Cons append_Nil append_assoc)
    finally show ?thesis
      using True by (simp add: s' labelled_snoc [OF len])
  next
    case ne: False
    with d i r have "array ! i \<noteq> ?a" by (simp add: nth_eq_iff_index_eq)
    with ne rows [OF i] show ?thesis
      by (simp add: s' labelled_snoc [OF len])
  qed
  have 4: "\<forall>a. a \<notin> set array \<longrightarrow> pools ?s' a = h a"
    using frame mem by (auto simp: s')
  have pop: "mset (concat (map ?f array)) + {#?x#} = mset (concat (map (pools s) array))"
    using mset_concat_pop [of array ?a "pools s" "butlast ?p" ?x, OF d mem split] .
  have 5: "mset (trainData ?s') + mset (concat (map (pools ?s') array)) = mset (concat (map h array))"
  proof -
    have "mset (trainData ?s') + mset (concat (map (pools ?s') array)) =
        mset (trainData s) + (mset (concat (map ?f array)) + {#?x#})"
      by (simp add: s')
    also have "\<dots> = mset (concat (map h array))"
      unfolding pop by (rule ms)
    finally show ?thesis .
  qed
  have "Suc (length (concat (map ?f array))) = length (concat (map (pools s) array))"
    using length_concat_pop [of array ?a "pools s", OF d mem False] .
  then have 6: "nEvents ?s' = int (length (concat (map (pools ?s') array)))"
    using cnt by (simp add: s')
  from 1 2 3 4 5 6 show ?thesis unfolding rd_inv_def by blast
qed

lemma randomizeData_loop_inv:
  assumes "distinct array" and "\<forall>rng\<in>set draws. rng < length array"
    and "rd_inv h array s" and "randomizeData_loop draws array s = Some s'"
  shows "rd_inv h array s' \<and> nEvents s' = 0"
  using assms(2-)
proof (induction draws arbitrary: s)
  case Nil
  then show ?case by (auto simp: rd_inv_def split: if_splits)
next
  case (Cons rng draws)
  show ?case
  proof (cases "nEvents s > 0")
    case True
    from Cons.prems have "rng < length array" by simp
    from rd_inv_body [OF assms(1) this Cons.prems(2)]
    have "rd_inv h array (randomizeData_body array rng s)" .
    moreover from True Cons.prems(3)
    have "randomizeData_loop draws array (randomizeData_body array rng s) = Some s'" by simp
    moreover from Cons.prems(1) have "\<forall>rng\<in>set draws. rng < length array" by simp
    ultimately show ?thesis using Cons.IH by blast
  next
    case False
    with Cons.prems show ?thesis by (auto simp: rd_inv_def)
  qed
qed

lemma randomizeData_body_count:
  assumes "distinct array" and "rng < length array"
    and "nEvents s = int (length (concat (map (pools s) array)))"
  shows "nEvents (randomizeData_body array rng s) =
     int (length (concat (map (pools (randomizeData_body array rng s)) array)))"
proof (cases "pools s (array ! rng) = []")
  case True
  with assms(3) show ?thesis by (simp add: randomizeData_body_def)
next
  case False
  from assms(2) have "array ! rng \<in> set array" by simp
  from length_concat_pop [of array "array ! rng" "pools s", OF assms(1) this False] assms(3) False
  show ?thesis by (simp add: randomizeData_body_def)
qed

lemma randomizeData_body_length:
  assumes "distinct array" and "rng < length array" and "i < length array"
  shows "length (pools (randomizeData_body array rng s) (array ! i)) =
     (if i = rng then length (pools s (array ! i)) - 1 else length (pools s (array ! i)))"
  using assms by (auto simp: randomizeData_body_def nth_eq_iff_index_eq)

lemma randomizeData_loop_returns_iff:
  assumes "distinct array" and "\<forall>rng\<in>set draws. rng < length array"
    and "nEvents s = int (length (concat (map (pools s) array)))"
  shows "(\<exists>s'. randomizeData_loop draws array s = Some s') \<longleftrightarrow>
     (\<forall>i<length array. length (pools s (array ! i)) \<le> count_list draws i)"
  using assms(2-)
proof (induction draws arbitrary: s)
  case Nil
  have "(nEvents s \<le> 0) = (length (concat (map (pools s) array)) = 0)"
    using Nil.prems(2) by simp
  then have "(nEvents s \<le> 0) = (\<forall>i<length array. pools s (array ! i) = [])"
    by (simp only: concat_Nil_pools)
  then show ?case by (auto simp: not_less)
next
  case (Cons rng draws)
  from Cons.prems have rng: "rng < length array"
    and rest: "\<forall>rng\<in>set draws. rng < length array" by simp_all
  show ?case
  proof (cases "nEvents s > 0")
    case False
    with Cons.prems(2) have "length (concat (map (pools s) array)) = 0" by simp
    then have "\<forall>i<length array. pools s (array ! i) = []" by (simp only: concat_Nil_pools)
    with False show ?thesis by simp
  next
    case True
    let ?s1 = "randomizeData_body array rng s"
    have cnt: "nEvents ?s1 = int (length (concat (map (pools ?s1) array)))"
      using randomizeData_body_count [OF assms(1) rng Cons.prems(2)] .
    have "(\<exists>s'. randomizeData_loop (rng # draws) array s = Some s') \<longleftrightarrow>
        (\<exists>s'. randomizeData_loop draws array ?s1 = Some s')"
      using True by simp
    also have "\<dots> \<longleftrightarrow> (\<forall>i<length array. length (pools ?s1 (array ! i)) \<le> count_list draws i)"
      using Cons.IH [OF rest cnt] .
    also have "\<dots> \<longleftrightarrow>
        (\<forall>i<length array. length (pools s (array ! i)) \<le> count_list (rng # draws) i)"
    proof (intro all_cong1 imp_cong refl)
      fix i assume i: "i < length array"
      show "(length (pools ?s1 (array ! i)) \<le> count_list draws i) =
          (length (pools s (array ! i)) \<le> count_list (rng # draws) i)"
        unfolding randomizeData_body_length [OF assms(1) rng i] by auto
    qed
    finally show ?thesis .
  qed
qed

lemma randomizeData_loop_count:
  assumes "distinct array" and "\<forall>rng\<in>set draws. rng < length array"
    and "nEvents s = int (length (concat (map (pools s) array)))"
    and "randomizeData_loop draws array s = Some s'"
  shows "nEvents s' = 0"
  using assms(2-)
proof (induction draws arbitrary: s)
  case Nil
  then show ?case by (simp split: if_splits)
next
  case (Cons rng draws)
  show ?case
  proof (cases "nEvents s > 0")
    case True
    from Cons.prems have rng: "rng < length array"
      and rest: "\<forall>rng\<in>set draws. rng < length array" by simp_all
    from True Cons.prems(3)
    have "randomizeData_loop draws array (randomizeData_body array rng s) = Some s'" by simp
    with Cons.IH [OF rest randomizeData_body_count [OF assms(1) rng Cons.prems(2)]]
    show ?thesis by blast
  next
    case False
    with Cons.prems show ?thesis by simp
  qed
qed

text \<open>
  C1, as amended. Let the pools of \<open>array\<close> be distinct list objects, and let the draws
  (each a position of \<open>array\<close>) name every position \<open>i\<close> at least as often as pool \<open>i\<close> has rows, which
  is exactly when the loop ends (see \<open>randomizeData_loop_returns_iff\<close>). Then randomizeData
  returns a pair \<open>(train, target)\<close> of equal length; the multiset of the rows of
  \<open>train\<close> is the multiset of all rows of all pools; every label is a position of
  \<open>array\<close>; the rows of \<open>train\<close> standing where \<open>target\<close> holds \<open>i\<close> are the rows of
  pool \<open>i\<close>, last row first, so each row is paired with the index of its pool; label
  \<open>i\<close> occurs as often as pool \<open>i\<close> had rows; after the call every pool of \<open>array\<close> is
  empty, and no other list object has changed.
\<close>

theorem randomizeData_shuffle:
  assumes "distinct array"
    and "\<forall>rng\<in>set draws. rng < length array"
    and "\<forall>i<length array. length (h (array ! i)) \<le> count_list draws i"
  shows "\<exists>train target h'.
      randomizeData draws array h = Some ((train, target), h')
    \<and> length train = length target
    \<and> mset train = mset (concat (map h array))
    \<and> (\<forall>l\<in>set target. l < length array)
    \<and> (\<forall>i<length array.
          map fst (filter (\<lambda>p. snd p = i) (zip train target)) = rev (h (array ! i)))
    \<and> (\<forall>i<length array. count_list target i = length (h (array ! i)))
    \<and> (\<forall>i<length array. h' (array ! i) = [])
    \<and> (\<forall>a. a \<notin> set array \<longrightarrow> h' a = h a)"
proof -
  let ?s0 = "\<lparr>pools = h, trainData = [], targetData = [],
    nEvents = randomizeData_count array h 0\<rparr>"
  have cnt0: "nEvents ?s0 = int (length (concat (map (pools ?s0) array)))"
    by (simp add: randomizeData_count_total)
  from assms(3) have "\<forall>i<length array. length (pools ?s0 (array ! i)) \<le> count_list draws i"
    by simp
  with randomizeData_loop_returns_iff [OF assms(1,2) cnt0]
  obtain s' where run: "randomizeData_loop draws array ?s0 = Some s'" by blast
  from randomizeData_loop_inv [OF assms(1,2) rd_inv_init run]
  have inv: "rd_inv h array s'" and zero: "nEvents s' = 0" by simp_all
  from inv have len: "length (trainData s') = length (targetData s')"
    and lab: "\<forall>l\<in>set (targetData s'). l < length array"
    and rows: "\<And>i. i < length array \<Longrightarrow>
         h (array ! i) = pools s' (array ! i) @ rev (labelled i (trainData s') (targetData s'))"
    and frame: "\<forall>a. a \<notin> set array \<longrightarrow> pools s' a = h a"
    and ms: "mset (trainData s') + mset (concat (map (pools s') array)) = mset (concat (map h array))"
    and cnt: "nEvents s' = int (length (concat (map (pools s') array)))"
    by (simp_all add: rd_inv_def)
  from cnt zero have nil: "length (concat (map (pools s') array)) = 0" by simp
  then have empty: "\<forall>i<length array. pools s' (array ! i) = []"
    by (simp only: concat_Nil_pools)
  from nil have "concat (map (pools s') array) = []" by (simp only: length_0_conv)
  with ms have mset: "mset (trainData s') = mset (concat (map h array))"
    by (simp only: mset.simps add_0_right)
  have lab_rows: "labelled i (trainData s') (targetData s') = rev (h (array ! i))"
    if "i < length array" for i
    using rows [OF that] empty that by simp
  have counts: "count_list (targetData s') i = length (h (array ! i))"
    if "i < length array" for i
    using length_labelled [OF len, of i] lab_rows [OF that] by simp
  have ret: "randomizeData draws array h = Some ((trainData s', targetData s'), pools s')"
    using run by (simp add: randomizeData_def)
  from ret len mset lab lab_rows counts empty frame show ?thesis
    unfolding labelled_def by blast
qed

text \<open>Pools of sizes 2 and 1: three rows, three labels, label 0 twice and label 1 once.\<close>

theorem randomizeData_shuffle_witness:
  "\<exists>train target h'.
      randomizeData [1, 1, 0, 1, 0, 0] [0, 1]
        (\<lambda>a. if a = 0 then [''x1'', ''x2''] else if a = Suc 0 then [''y1''] else []) =
        Some ((train, target), h')
    \<and> length train = 3 \<and> length target = 3
    \<and> mset train = {#''x1'', ''x2'', ''y1''#}
    \<and> count_list target 0 = 2 \<and> count_list target 1 = 1
    \<and> h' 0 = [] \<and> h' 1 = []"
proof -
  let ?h = "\<lambda>a::nat. if a = 0 then [''x1'', ''x2''] else if a = Suc 0 then [''y1''] else []"
  have d: "distinct [0::nat, 1]" by simp
  have r: "\<forall>rng\<in>set [1, 1, 0, 1, 0, 0::nat]. rng < length [0::nat, 1]" by simp
  have c: "\<forall>i<length [0::nat, 1]. length (?h ([0, 1] ! i)) \<le> count_list [1, 1, 0, 1, 0, 0] i"
    by (simp add: less_Suc_eq)
  from randomizeData_shuffle [OF d r c]
  obtain train target h' where
    ret: "randomizeData [1, 1, 0, 1, 0, 0] [0, 1] ?h = Some ((train, target), h')"
    and len: "length train = length target"
    and ms: "mset train = mset (concat (map ?h [0, 1]))"
    and cnt: "\<forall>i<length [0::nat, 1]. count_list target i = length (?h ([0, 1] ! i))"
    and emp: "\<forall>i<length [0::nat, 1]. h' ([0, 1] ! i) = []"
    by blast
  from cnt have c0: "count_list target 0 = 2" and c1: "count_list target 1 = 1"
    by (simp_all add: less_Suc_eq)
  from emp have e0: "h' 0 = []" and e1: "h' 1 = []" by (simp_all add: less_Suc_eq)
  from ms have ms': "mset train = {#''x1'', ''x2'', ''y1''#}" by simp
  then have "size (mset train) = 3" by simp
  then have l3: "length train = 3" by simp
  with len have "length target = 3" by simp
  with ret l3 ms' c0 c1 e0 e1 show ?thesis by blast
qed

lemma length_concat_remdups_le:
  "length (concat (map f (remdups xs))) \<le> length (concat (map f xs))"
  by (induction xs) auto

lemma length_concat_remdups_less:
  assumes "a \<in> set xs" and "2 \<le> count_list xs a" and "f a \<noteq> []"
  shows "length (concat (map f (remdups xs))) < length (concat (map f xs))"
  using assms
proof (induction xs)
  case Nil
  then show ?case by simp
next
  case (Cons x xs)
  note le = length_concat_remdups_le [of f xs]
  show ?case
  proof (cases "x = a")
    case True
    with Cons.prems have "count_list xs a \<noteq> 0" by auto
    then have "a \<in> set xs" by (simp add: count_list_0_iff)
    with True Cons.prems(3) le show ?thesis by (cases "f a") auto
  next
    case False
    with Cons.prems have "a \<in> set xs" "2 \<le> count_list xs a" by auto
    from Cons.IH [OF this Cons.prems(3)] show ?thesis by auto
  qed
qed

lemma randomizeData_loop_shared:
  assumes "\<forall>rng\<in>set draws. rng < length array"
    and "int (length (concat (map (pools s) (remdups array)))) < nEvents s"
  shows "randomizeData_loop draws array s = None"
  using assms
proof (induction draws arbitrary: s)
  case Nil
  then show ?case by simp
next
  case (Cons rng draws)
  from Cons.prems have pos: "0 < nEvents s" by linarith
  from Cons.prems have rng: "rng < length array"
    and rest: "\<forall>rng\<in>set draws. rng < length array" by simp_all
  let ?s1 = "randomizeData_body array rng s"
  have "int (length (concat (map (pools ?s1) (remdups array)))) < nEvents ?s1"
  proof (cases "pools s (array ! rng) = []")
    case True
    with Cons.prems(2) show ?thesis by (simp add: randomizeData_body_def)
  next
    case False
    from rng have "array ! rng \<in> set (remdups array)" by simp
    from length_concat_pop [of "remdups array" "array ! rng" "pools s", OF _ this False]
      Cons.prems(2) False
    show ?thesis by (simp add: randomizeData_body_def)
  qed
  from Cons.IH [OF rest this] pos show ?case by simp
qed

text \<open>
  When a list object that holds a row stands at two positions of \<open>array\<close>, the counting
  loop counts its rows twice, each \<^verbatim>\<open>pop()\<close> removes a row once, and \<open>nEvents\<close> stays
  above the number of rows left: the loop never ends, whatever the draws.
\<close>

lemma randomizeData_shared_pool:
  assumes "\<forall>rng\<in>set draws. rng < length array"
    and "a \<in> set array" and "2 \<le> count_list array a" and "h a \<noteq> []"
  shows "randomizeData draws array h = None"
proof -
  from length_concat_remdups_less [of a array h, OF assms(2-4)]
  have "int (length (concat (map h (remdups array)))) < randomizeData_count array h 0"
    by (simp add: randomizeData_count_total)
  then have "randomizeData_loop draws array
      \<lparr>pools = h, trainData = [], targetData = [], nEvents = randomizeData_count array h 0\<rparr> = None"
    by (intro randomizeData_loop_shared [OF assms(1)]) simp
  then show ?thesis by (simp add: randomizeData_def)
qed

text \<open>
  C1 as stated fails on the list \<open>[p, p]\<close> of one list object \<open>p = [x]\<close> standing at both
  positions: the counting loop makes \<open>nEvents = 2\<close>, one row can be popped, and the call
  returns for no draws at all, also not for draws that name each position twice.
\<close>

theorem randomizeData_shuffle_counterexample:
  "randomizeData [0, 1, 1, 0] [0, 0] (\<lambda>a. if a = 0 then [''x''] else []) = None
 \<and> length [''x''] \<le> count_list [0, 1, 1, 0] (0::nat)
 \<and> length [''x''] \<le> count_list [0, 1, 1, 0] (Suc 0)
 \<and> \<not> (\<exists>draws res. (\<forall>rng\<in>set draws. rng < length [0::nat, 0])
      \<and> randomizeData draws [0, 0] (\<lambda>a. if a = 0 then [''x''] else []) = Some res)"
proof -
  let ?h = "\<lambda>a::nat. if a = 0 then [''x''] else []"
  have never: "randomizeData draws [0, 0] ?h = None"
    if "\<forall>rng\<in>set draws. rng < length [0::nat, 0]" for draws
    by (rule randomizeData_shared_pool [of draws "[0, 0]" 0 ?h, OF that]) simp_all
  have 1: "randomizeData [0, 1, 1, 0] [0, 0] ?h = None"
    by (rule never) simp
  have 2: "length [''x''] \<le> count_list [0, 1, 1, 0] (0::nat)" by simp
  have 3: "length [''x''] \<le> count_list [0, 1, 1, 0] (Suc 0)" by simp
  have 4: "\<not> (\<exists>draws res. (\<forall>rng\<in>set draws. rng < length [0::nat, 0])
      \<and> randomizeData draws [0, 0] ?h = Some res)"
    using never by auto
  from 1 2 3 4 show ?thesis by (intro conjI)
qed

subsection \<open>randomizeData: the steps of the loop and its end\<close>

text \<open>
  With \<^verbatim>\<open>random.randint\<close> keeping its promise the loop raises nothing, and it is the loop
  over the values that the calls return.
\<close>

lemma randint_draws_range:
  assumes "\<forall>g b. 0 \<le> b \<longrightarrow> int (fst (randint g 0 b)) \<le> b" and "array \<noteq> []"
  shows "\<forall>rng\<in>set (randint_draws randint n g (int (length array) - 1)). rng < length array"
proof (induction n arbitrary: g)
  case 0
  show ?case by simp
next
  case (Suc n)
  from assms(2) have b: "0 \<le> int (length array) - 1" by (cases array) simp_all
  obtain rng g' where r: "randint g 0 (int (length array) - 1) = (rng, g')"
    by (cases "randint g 0 (int (length array) - 1)")
  from assms(1) b have "int (fst (randint g 0 (int (length array) - 1))) \<le> int (length array) - 1"
    by blast
  with r have "rng < length array" by simp
  with r Suc.IH [of g'] show ?case by simp
qed

lemma randomizeData_while_loop:
  assumes "\<forall>g b. 0 \<le> b \<longrightarrow> int (fst (randint g 0 b)) \<le> b" and "array \<noteq> []"
  shows "randomizeData_while randint n g array s =
     map_option Inr (randomizeData_loop (randint_draws randint n g (int (length array) - 1)) array s)"
proof (induction n arbitrary: g s)
  case 0
  show ?case by simp
next
  case (Suc n)
  from assms(2) have b: "0 \<le> int (length array) - 1" by (cases array) simp_all
  obtain rng g' where r: "randint g 0 (int (length array) - 1) = (rng, g')"
    by (cases "randint g 0 (int (length array) - 1)")
  from assms(1) b have "int (fst (randint g 0 (int (length array) - 1))) \<le> int (length array) - 1"
    by blast
  with r have "rng < length array" by simp
  with r b Suc.IH [of g' "randomizeData_body array rng s"] show ?case by simp
qed

lemma randomizeData_while_ended:
  "nEvents s \<le> 0 \<Longrightarrow> randomizeData_while randint n g array s = Some (Inr s)"
  by (cases n) simp_all


lemma randomizeData_loop_rows_left:
  assumes "distinct array" and "\<forall>rng\<in>set draws. rng < length array"
    and "nEvents s = int (length (concat (map (pools s) array)))"
    and "randomizeData_loop draws array s = Some s'"
  shows "nEvents s' = int (length (concat (map (pools s') array)))"
  using assms(2-)
proof (induction draws arbitrary: s)
  case Nil
  then show ?case by (simp split: if_splits)
next
  case (Cons rng draws)
  show ?case
  proof (cases "nEvents s > 0")
    case True
    from Cons.prems have rng: "rng < length array"
      and rest: "\<forall>rng\<in>set draws. rng < length array" by simp_all
    from True Cons.prems(3)
    have "randomizeData_loop draws array (randomizeData_body array rng s) = Some s'" by simp
    with Cons.IH [OF rest randomizeData_body_count [OF assms(1) rng Cons.prems(2)]]
    show ?thesis by blast
  next
    case False
    with Cons.prems show ?thesis by simp
  qed
qed

lemma randomizeData_while_no_error:
  assumes "\<forall>g b. 0 \<le> b \<longrightarrow> int (fst (randint g 0 b)) \<le> b"
    and "nEvents s = int (length (concat (map (pools s) array)))"
  shows "randomizeData_while randint n g array s \<noteq> Some (Inl e)"
proof (cases "array = []")
  case True
  with assms(2) have "nEvents s \<le> 0" by simp
  then show ?thesis by (simp add: randomizeData_while_ended)
next
  case False
  from randomizeData_while_loop [of randint array n g s, OF assms(1) False]
  show ?thesis by auto
qed

lemma randomizeData_while_returns_iff:
  assumes "\<forall>g b. 0 \<le> b \<longrightarrow> int (fst (randint g 0 b)) \<le> b"
    and "distinct array"
    and "nEvents s = int (length (concat (map (pools s) array)))"
  shows "(\<exists>s'. randomizeData_while randint n g array s = Some (Inr s')) \<longleftrightarrow>
     (\<forall>i<length array. length (pools s (array ! i)) \<le>
        count_list (randint_draws randint n g (int (length array) - 1)) i)"
proof (cases "array = []")
  case True
  with assms(3) have "nEvents s \<le> 0" by simp
  then have "randomizeData_while randint n g array s = Some (Inr s)"
    by (rule randomizeData_while_ended)
  with True show ?thesis by simp
next
  case False
  note link = randomizeData_while_loop [of randint array n g s, OF assms(1) False]
  note range = randint_draws_range [of randint array n g, OF assms(1) False]
  have "(\<exists>s'. randomizeData_while randint n g array s = Some (Inr s')) \<longleftrightarrow>
      (\<exists>s'. randomizeData_loop (randint_draws randint n g (int (length array) - 1)) array s = Some s')"
    unfolding link by auto
  with randomizeData_loop_returns_iff [OF assms(2) range assms(3)] show ?thesis by simp
qed

lemma randomizeData_while_final:
  assumes "\<forall>g b. 0 \<le> b \<longrightarrow> int (fst (randint g 0 b)) \<le> b"
    and "distinct array"
    and "nEvents s = int (length (concat (map (pools s) array)))"
    and "randomizeData_while randint n g array s = Some (Inr s')"
  shows "nEvents s' = 0 \<and> (\<forall>i<length array. pools s' (array ! i) = [])"
proof (cases "array = []")
  case True
  with assms(3) have z: "nEvents s = 0" by simp
  then have "randomizeData_while randint n g array s = Some (Inr s)"
    by (simp add: randomizeData_while_ended)
  with assms(4) have "s' = s" by simp
  with z True show ?thesis by simp
next
  case False
  note link = randomizeData_while_loop [of randint array n g s, OF assms(1) False]
  note range = randint_draws_range [of randint array n g, OF assms(1) False]
  from assms(4) link
  have run: "randomizeData_loop (randint_draws randint n g (int (length array) - 1)) array s = Some s'"
    by auto
  from randomizeData_loop_count [OF assms(2) range assms(3) run] have z: "nEvents s' = 0" .
  from randomizeData_loop_rows_left [OF assms(2) range assms(3) run] z
  have "length (concat (map (pools s') array)) = 0" by simp
  then have "\<forall>i<length array. pools s' (array ! i) = []" by (simp only: concat_Nil_pools)
  with z show ?thesis by simp
qed

lemma randomizeData_while_iteration:
  assumes "\<forall>g b. 0 \<le> b \<longrightarrow> int (fst (randint g 0 b)) \<le> b"
    and "distinct array"
    and "nEvents s = int (length (concat (map (pools s) array)))"
    and "0 < nEvents s"
  shows "\<exists>rng g'. randint g 0 (int (length array) - 1) = (rng, g') \<and> rng < length array
      \<and> randomizeData_while randint (Suc n) g array s =
          randomizeData_while randint n g' array (randomizeData_body array rng s)
      \<and> nEvents (randomizeData_body array rng s) =
          int (length (concat (map (pools (randomizeData_body array rng s)) array)))
      \<and> (pools s (array ! rng) \<noteq> [] \<longrightarrow>
            pools (randomizeData_body array rng s) (array ! rng) = butlast (pools s (array ! rng))
          \<and> trainData (randomizeData_body array rng s) =
              trainData s @ [last (pools s (array ! rng))]
          \<and> targetData (randomizeData_body array rng s) = targetData s @ [rng]
          \<and> nEvents (randomizeData_body array rng s) = nEvents s - 1
          \<and> (\<forall>j<length array. j \<noteq> rng \<longrightarrow>
                pools (randomizeData_body array rng s) (array ! j) = pools s (array ! j)))
      \<and> (pools s (array ! rng) = [] \<longrightarrow> randomizeData_body array rng s = s)"
proof -
  from assms(3,4) have ne: "array \<noteq> []" by auto
  then have b: "0 \<le> int (length array) - 1" by (cases array) simp_all
  obtain rng g' where r: "randint g 0 (int (length array) - 1) = (rng, g')"
    by (cases "randint g 0 (int (length array) - 1)")
  from assms(1) b have "int (fst (randint g 0 (int (length array) - 1))) \<le> int (length array) - 1"
    by blast
  with r have rng: "rng < length array" by simp
  from r rng b assms(4)
  have step: "randomizeData_while randint (Suc n) g array s =
      randomizeData_while randint n g' array (randomizeData_body array rng s)" by simp
  note cnt = randomizeData_body_count [OF assms(2) rng assms(3)]
  have other: "array ! j \<noteq> array ! rng" if "j < length array" "j \<noteq> rng" for j
    using that rng assms(2) by (simp add: nth_eq_iff_index_eq)
  have hit: "pools (randomizeData_body array rng s) (array ! rng) = butlast (pools s (array ! rng))
      \<and> trainData (randomizeData_body array rng s) = trainData s @ [last (pools s (array ! rng))]
      \<and> targetData (randomizeData_body array rng s) = targetData s @ [rng]
      \<and> nEvents (randomizeData_body array rng s) = nEvents s - 1
      \<and> (\<forall>j<length array. j \<noteq> rng \<longrightarrow>
            pools (randomizeData_body array rng s) (array ! j) = pools s (array ! j))"
    if "pools s (array ! rng) \<noteq> []"
    using that other by (simp add: randomizeData_body_def)
  have miss: "randomizeData_body array rng s = s" if "pools s (array ! rng) = []"
    using that by (simp add: randomizeData_body_def)
  from r rng step cnt hit miss show ?thesis by blast
qed


lemma option_sum_cases:
  obtains "x = None" | e where "x = Some (Inl e)" | v where "x = Some (Inr v)"
  by (cases x) (auto elim: sumE)

text \<open>
  The index of an iteration is the value of the call itself: on a set \<open>G\<close> of generator
  states on which every value of \<^verbatim>\<open>random.randint(0, len(array)-1)\<close> is returned equally
  often, every position of \<open>array\<close> is the index of the iteration equally often.
\<close>

lemma randomizeData_while_pick:
  assumes "i < length array" and "0 < nEvents s"
  shows "(\<exists>g'. randint g 0 (int (length array) - 1) = (i, g')
        \<and> randomizeData_while randint (Suc n) g array s =
            randomizeData_while randint n g' array (randomizeData_body array i s)) \<longleftrightarrow>
     int (fst (randint g 0 (int (length array) - 1))) = int i"
proof
  assume "\<exists>g'. randint g 0 (int (length array) - 1) = (i, g')
        \<and> randomizeData_while randint (Suc n) g array s =
            randomizeData_while randint n g' array (randomizeData_body array i s)"
  then show "int (fst (randint g 0 (int (length array) - 1))) = int i" by auto
next
  assume "int (fst (randint g 0 (int (length array) - 1))) = int i"
  then have r: "randint g 0 (int (length array) - 1) =
      (i, snd (randint g 0 (int (length array) - 1)))"
    by (cases "randint g 0 (int (length array) - 1)") simp
  from assms(1) have b: "\<not> int (length array) - 1 < 0" by (cases array) simp_all
  have "randomizeData_while randint (Suc n) g array s =
      randomizeData_while randint n (snd (randint g 0 (int (length array) - 1))) array
        (randomizeData_body array i s)"
    using assms b by (subst randomizeData_while.simps(2), subst r) simp
  with r show "\<exists>g'. randint g 0 (int (length array) - 1) = (i, g')
        \<and> randomizeData_while randint (Suc n) g array s =
            randomizeData_while randint n g' array (randomizeData_body array i s)" by blast
qed

lemma randomizeData_while_uniform:
  assumes "\<forall>k. 0 \<le> k \<and> k \<le> int (length array) - 1 \<longrightarrow>
      card {g \<in> G. int (fst (randint g 0 (int (length array) - 1))) = k} * length array = card G"
    and "0 < nEvents s" and "i < length array"
  shows "card {g \<in> G. \<exists>g'. randint g 0 (int (length array) - 1) = (i, g')
        \<and> randomizeData_while randint (Suc n) g array s =
            randomizeData_while randint n g' array (randomizeData_body array i s)} * length array
      = card G"
proof -
  from assms(3) have "0 \<le> int i \<and> int i \<le> int (length array) - 1" by simp
  with assms(1)
  have "card {g \<in> G. int (fst (randint g 0 (int (length array) - 1))) = int i} * length array
      = card G" by blast
  then show ?thesis
    by (simp only: randomizeData_while_pick [OF assms(3,2)])
qed

text \<open>
  C2, as amended. Let \<open>randint\<close> keep the library's promise (the value of
  \<^verbatim>\<open>randint(0, b)\<close> is at most \<open>b\<close>), let the pools of \<open>array\<close> be distinct list objects, and
  let \<open>nEvents\<close> be the number of rows in them, as it is after the counting loop and after
  every iteration. While \<open>nEvents > 0\<close>, an iteration calls
  \<^verbatim>\<open>random.randint(0, len(array)-1)\<close>, with these bounds whatever the pools hold, so its
  value \<open>rng\<close> is a position of \<open>array\<close>, of an empty pool or not; neither \<open>ValueError\<close>
  nor \<open>IndexError\<close> is raised. If pool
  \<open>rng\<close> holds a row, the iteration removes its last row, appends it to \<open>trainData\<close> and
  \<open>rng\<close> to \<open>targetData\<close>, takes one from \<open>nEvents\<close> and leaves the other pools of \<open>array\<close>
  as they are; if pool \<open>rng\<close> is empty, the state is unchanged and the loop goes on with
  the next call. With \<open>nEvents \<le> 0\<close> the loop has ended in the state it is in. The loop
  ends within \<open>n\<close> iterations exactly when every position \<open>i\<close> is among the first \<open>n\<close>
  values of \<^verbatim>\<open>randint\<close> at least as often as pool \<open>i\<close> has rows; it ends with
  \<open>nEvents = 0\<close> and every pool empty, and randomizeData returns exactly then. The index
  is uniform over the positions of \<open>array\<close> as far as \<^verbatim>\<open>random.randint\<close> is: if, on a finite
  set \<open>G\<close> of generator states, the call \<^verbatim>\<open>random.randint(0, len(array)-1)\<close> returns each of
  its \<open>len(array)\<close> values for the same number of states, then for every position \<open>i\<close>,
  of an empty pool or not, the iteration goes on with index \<open>i\<close> for that number of states.
\<close>

theorem randomizeData_while_steps:
  assumes "\<forall>g b. 0 \<le> b \<longrightarrow> int (fst (randint g 0 b)) \<le> b"
    and "distinct array"
    and "nEvents s = int (length (concat (map (pools s) array)))"
  shows "(0 < nEvents s \<longrightarrow>
      (\<exists>rng g'. randint g 0 (int (length array) - 1) = (rng, g') \<and> rng < length array
        \<and> randomizeData_while randint (Suc n) g array s =
            randomizeData_while randint n g' array (randomizeData_body array rng s)
        \<and> nEvents (randomizeData_body array rng s) =
            int (length (concat (map (pools (randomizeData_body array rng s)) array)))
        \<and> (pools s (array ! rng) \<noteq> [] \<longrightarrow>
              pools (randomizeData_body array rng s) (array ! rng) =
                butlast (pools s (array ! rng))
            \<and> trainData (randomizeData_body array rng s) =
                trainData s @ [last (pools s (array ! rng))]
            \<and> targetData (randomizeData_body array rng s) = targetData s @ [rng]
            \<and> nEvents (randomizeData_body array rng s) = nEvents s - 1
            \<and> (\<forall>j<length array. j \<noteq> rng \<longrightarrow>
                  pools (randomizeData_body array rng s) (array ! j) = pools s (array ! j)))
        \<and> (pools s (array ! rng) = [] \<longrightarrow> randomizeData_body array rng s = s)))
    \<and> (nEvents s \<le> 0 \<longrightarrow> randomizeData_while randint n g array s = Some (Inr s))
    \<and> (\<forall>e. randomizeData_while randint n g array s \<noteq> Some (Inl e))
    \<and> ((\<exists>s'. randomizeData_while randint n g array s = Some (Inr s')) \<longleftrightarrow>
         (\<forall>i<length array. length (pools s (array ! i)) \<le>
            count_list (randint_draws randint n g (int (length array) - 1)) i))
    \<and> (\<forall>s'. randomizeData_while randint n g array s = Some (Inr s') \<longrightarrow>
          nEvents s' = 0 \<and> (\<forall>i<length array. pools s' (array ! i) = []))
    \<and> (\<forall>e. randomizeData_py randint n g array h \<noteq> Some (Inl e))
    \<and> ((\<exists>res. randomizeData_py randint n g array h = Some (Inr res)) \<longleftrightarrow>
         (\<forall>i<length array. length (h (array ! i)) \<le>
            count_list (randint_draws randint n g (int (length array) - 1)) i))
    \<and> (finite G
        \<and> (\<forall>k. 0 \<le> k \<and> k \<le> int (length array) - 1 \<longrightarrow>
              card {g \<in> G. int (fst (randint g 0 (int (length array) - 1))) = k} * length array =
                card G)
        \<and> 0 < nEvents s \<longrightarrow>
        (\<forall>i<length array.
            card {g \<in> G. \<exists>g'. randint g 0 (int (length array) - 1) = (i, g')
                \<and> randomizeData_while randint (Suc n) g array s =
                    randomizeData_while randint n g' array (randomizeData_body array i s)} *
              length array = card G))"
proof -
  let ?s0 = "\<lparr>pools = h, trainData = [], targetData = [],
    nEvents = randomizeData_count array h 0\<rparr>"
  have cnt0: "nEvents ?s0 = int (length (concat (map (pools ?s0) array)))"
    by (simp add: randomizeData_count_total)
  have A: "0 < nEvents s \<longrightarrow>
      (\<exists>rng g'. randint g 0 (int (length array) - 1) = (rng, g') \<and> rng < length array
        \<and> randomizeData_while randint (Suc n) g array s =
            randomizeData_while randint n g' array (randomizeData_body array rng s)
        \<and> nEvents (randomizeData_body array rng s) =
            int (length (concat (map (pools (randomizeData_body array rng s)) array)))
        \<and> (pools s (array ! rng) \<noteq> [] \<longrightarrow>
              pools (randomizeData_body array rng s) (array ! rng) =
                butlast (pools s (array ! rng))
            \<and> trainData (randomizeData_body array rng s) =
                trainData s @ [last (pools s (array ! rng))]
            \<and> targetData (randomizeData_body array rng s) = targetData s @ [rng]
            \<and> nEvents (randomizeData_body array rng s) = nEvents s - 1
            \<and> (\<forall>j<length array. j \<noteq> rng \<longrightarrow>
                  pools (randomizeData_body array rng s) (array ! j) = pools s (array ! j)))
        \<and> (pools s (array ! rng) = [] \<longrightarrow> randomizeData_body array rng s = s))"
    using randomizeData_while_iteration [of randint array s g n, OF assms] by (rule impI)
  have B: "nEvents s \<le> 0 \<longrightarrow> randomizeData_while randint n g array s = Some (Inr s)"
    by (simp add: randomizeData_while_ended)
  have C: "\<forall>e. randomizeData_while randint n g array s \<noteq> Some (Inl e)"
    using randomizeData_while_no_error [of randint s array n g, OF assms(1,3)] by (rule allI)
  note D = randomizeData_while_returns_iff [of randint array s n g, OF assms]
  have E: "\<forall>s'. randomizeData_while randint n g array s = Some (Inr s') \<longrightarrow>
          nEvents s' = 0 \<and> (\<forall>i<length array. pools s' (array ! i) = [])"
    using randomizeData_while_final [of randint array s n g, OF assms] by blast
  have F: "\<forall>e. randomizeData_py randint n g array h \<noteq> Some (Inl e)"
  proof
    fix e
    from randomizeData_while_no_error [of randint ?s0 array n g e, OF assms(1) cnt0]
    show "randomizeData_py randint n g array h \<noteq> Some (Inl e)"
      unfolding randomizeData_py_def
      by (cases "randomizeData_while randint n g array ?s0" rule: option_sum_cases) auto
  qed
  have "(\<exists>res. randomizeData_py randint n g array h = Some (Inr res)) \<longleftrightarrow>
      (\<exists>s'. randomizeData_while randint n g array ?s0 = Some (Inr s'))"
    unfolding randomizeData_py_def
    by (cases "randomizeData_while randint n g array ?s0" rule: option_sum_cases) auto
  with randomizeData_while_returns_iff [of randint array ?s0 n g, OF assms(1,2) cnt0]
  have G': "(\<exists>res. randomizeData_py randint n g array h = Some (Inr res)) \<longleftrightarrow>
         (\<forall>i<length array. length (h (array ! i)) \<le>
            count_list (randint_draws randint n g (int (length array) - 1)) i)"
    by simp
  have H: "(finite G
          \<and> (\<forall>k. 0 \<le> k \<and> k \<le> int (length array) - 1 \<longrightarrow>
                card {g \<in> G. int (fst (randint g 0 (int (length array) - 1))) = k} * length array =
                  card G)
          \<and> 0 < nEvents s \<longrightarrow>
          (\<forall>i<length array.
              card {g \<in> G. \<exists>g'. randint g 0 (int (length array) - 1) = (i, g')
                  \<and> randomizeData_while randint (Suc n) g array s =
                      randomizeData_while randint n g' array (randomizeData_body array i s)} *
                length array = card G))"
    using randomizeData_while_uniform [of array G randint s _ n] by blast
  from A B C D E F G' H show ?thesis by (intro conjI)
qed

text \<open>
  The pools \<open>[x1, x2]\<close> and \<open>[y1]\<close> with a generator that counts up and returns its state
  modulo \<open>b + 1\<close>: from state 1 the values are 1, 0, 1, 0, the third one names the pool
  \<open>[y1]\<close> when it is empty, and the loop has ended after four iterations. On the two
  generator states 0 and 1 the call returns 0 once and 1 once; in the state the loop
  has after two iterations, with the pool \<open>[y1]\<close> empty, position 1 is the index of the
  iteration for one of the two.
\<close>

lemma mod_Suc_nat_le: "0 \<le> b \<Longrightarrow> int (g mod Suc (nat b)) \<le> b"
proof -
  assume b: "0 \<le> b"
  have "g mod Suc (nat b) < Suc (nat b)" by (rule mod_less_divisor) simp
  then have "g mod Suc (nat b) \<le> nat b" by (simp only: less_Suc_eq_le)
  then have "int (g mod Suc (nat b)) \<le> int (nat b)" by (simp only: of_nat_le_iff)
  with b show ?thesis by simp
qed

theorem randomizeData_while_steps_witness:
  "(\<exists>s'. randomizeData_while (\<lambda>g a b. (g mod (nat b + 1), Suc g)) 4 (Suc 0) [0, 1]
          \<lparr>pools = (\<lambda>a. if a = 0 then [''x1'', ''x2''] else if a = Suc 0 then [''y1''] else []),
           trainData = [], targetData = [], nEvents = 3\<rparr> = Some (Inr s')
        \<and> nEvents s' = 0 \<and> pools s' 0 = [] \<and> pools s' (Suc 0) = [])
   \<and> randint_draws (\<lambda>g a b. (g mod (nat b + 1), Suc g)) 4 (Suc 0) 1 = [1, 0, 1, 0]
   \<and> (\<exists>res. randomizeData_py (\<lambda>g a b. (g mod (nat b + 1), Suc g)) 4 (Suc 0) [0, 1]
          (\<lambda>a. if a = 0 then [''x1'', ''x2''] else if a = Suc 0 then [''y1''] else []) =
          Some (Inr res))
   \<and> card {g \<in> {0, Suc 0}.
        \<exists>g'. (\<lambda>g a b. (g mod (nat b + 1), Suc g)) g 0 (int (length [0::nat, 1]) - 1) = (Suc 0, g')
          \<and> randomizeData_while (\<lambda>g a b. (g mod (nat b + 1), Suc g)) (Suc 0) g [0, 1]
              \<lparr>pools = (\<lambda>a. if a = 0 then [''x1''] else []),
               trainData = [''y1'', ''x2''], targetData = [1, 0], nEvents = 1\<rparr> =
            randomizeData_while (\<lambda>g a b. (g mod (nat b + 1), Suc g)) 0 g' [0, 1]
              (randomizeData_body [0, 1] (Suc 0)
                \<lparr>pools = (\<lambda>a. if a = 0 then [''x1''] else []),
                 trainData = [''y1'', ''x2''], targetData = [1, 0], nEvents = 1\<rparr>)} *
      length [0::nat, 1] = card {0::nat, Suc 0}"
proof -
  let ?rw = "\<lambda>(g::nat) (a::int) (b::int). (g mod (nat b + 1), Suc g)"
  let ?h = "\<lambda>a::nat. if a = 0 then [''x1'', ''x2''] else if a = Suc 0 then [''y1''] else []"
  let ?s = "\<lparr>pools = ?h, trainData = [], targetData = [], nEvents = 3\<rparr>"
  have c: "\<forall>g b. 0 \<le> b \<longrightarrow> int (fst (?rw g 0 b)) \<le> b"
  proof (intro allI impI)
    fix g :: nat and b :: int
    assume "0 \<le> b"
    then show "int (fst (?rw g 0 b)) \<le> b" by (simp add: mod_Suc_nat_le)
  qed
  have d: "distinct [0::nat, 1]" by simp
  have cnt: "nEvents ?s = int (length (concat (map (pools ?s) [0, 1])))" by simp
  have dr: "randint_draws ?rw 4 (Suc 0) (int (length [0::nat, 1]) - 1) = [1, 0, 1, 0]"
    by (simp add: eval_nat_numeral mod_Suc)
  note T = randomizeData_while_steps [of ?rw "[0, 1]" ?s "Suc 0" 4 ?h, OF c d cnt]
  note T4 = T [THEN conjunct2, THEN conjunct2, THEN conjunct2, THEN conjunct1]
  note T5 = T [THEN conjunct2, THEN conjunct2, THEN conjunct2, THEN conjunct2, THEN conjunct1]
  note T7 = T [THEN conjunct2, THEN conjunct2, THEN conjunct2, THEN conjunct2, THEN conjunct2,
    THEN conjunct2, THEN conjunct1]
  have r: "\<forall>i<length [0::nat, 1]. length (pools ?s ([0, 1] ! i)) \<le>
      count_list (randint_draws ?rw 4 (Suc 0) (int (length [0::nat, 1]) - 1)) i"
    unfolding dr by (simp add: less_Suc_eq)
  from T4 r obtain s' where run: "randomizeData_while ?rw 4 (Suc 0) [0, 1] ?s = Some (Inr s')"
    by blast
  from T5 run have z: "nEvents s' = 0" and e: "\<forall>i<length [0::nat, 1]. pools s' ([0, 1] ! i) = []"
    by blast+
  from e have e0: "pools s' 0 = []" and e1: "pools s' (Suc 0) = []"
    by (simp_all add: less_Suc_eq)
  have r': "\<forall>i<length [0::nat, 1]. length (?h ([0, 1] ! i)) \<le>
      count_list (randint_draws ?rw 4 (Suc 0) (int (length [0::nat, 1]) - 1)) i"
    unfolding dr by (simp add: less_Suc_eq)
  from T7 r' have py: "\<exists>res. randomizeData_py ?rw 4 (Suc 0) [0, 1] ?h = Some (Inr res)"
    by blast
  from dr have dr': "randint_draws ?rw 4 (Suc 0) 1 = [1, 0, 1, 0]" by simp
  let ?e = "\<lparr>pools = (\<lambda>a::nat. if a = 0 then [''x1''] else []),
    trainData = [''y1'', ''x2''], targetData = [1, 0::nat], nEvents = 1\<rparr>"
  have cnt': "nEvents ?e = int (length (concat (map (pools ?e) [0, 1])))" by simp
  have u: "\<forall>k. 0 \<le> k \<and> k \<le> int (length [0::nat, 1]) - 1 \<longrightarrow>
      card {g \<in> {0, Suc 0}. int (fst (?rw g 0 (int (length [0::nat, 1]) - 1))) = k} *
        length [0::nat, 1] = card {0::nat, Suc 0}"
  proof (intro allI impI)
    fix k :: int
    assume "0 \<le> k \<and> k \<le> int (length [0::nat, 1]) - 1"
    then have "k = 0 \<or> k = 1" by auto
    then show "card {g \<in> {0, Suc 0}. int (fst (?rw g 0 (int (length [0::nat, 1]) - 1))) = k} *
        length [0::nat, 1] = card {0::nat, Suc 0}"
    proof
      assume k: "k = 0"
      have "{g \<in> {0, Suc 0}. int (fst (?rw g 0 (int (length [0::nat, 1]) - 1))) = k} = {0}"
        unfolding k by auto
      then show ?thesis by simp
    next
      assume k: "k = 1"
      have "{g \<in> {0, Suc 0}. int (fst (?rw g 0 (int (length [0::nat, 1]) - 1))) = k} = {Suc 0}"
        unfolding k by auto
      then show ?thesis by simp
    qed
  qed
  have f: "finite {0::nat, Suc 0}" by simp
  have p: "0 < nEvents ?e" by simp
  note U = randomizeData_while_steps [of ?rw "[0, 1]" ?e "Suc 0" 0 ?h "{0, Suc 0}", OF c d cnt']
  note U8 = U [THEN conjunct2, THEN conjunct2, THEN conjunct2, THEN conjunct2, THEN conjunct2,
    THEN conjunct2, THEN conjunct2]
  from f u p have "finite {0::nat, Suc 0}
        \<and> (\<forall>k. 0 \<le> k \<and> k \<le> int (length [0::nat, 1]) - 1 \<longrightarrow>
              card {g \<in> {0, Suc 0}. int (fst (?rw g 0 (int (length [0::nat, 1]) - 1))) = k} *
                length [0::nat, 1] = card {0::nat, Suc 0})
        \<and> 0 < nEvents ?e" by (intro conjI)
  from U8 [THEN mp, OF this, THEN spec, of "Suc 0"]
  have uni: "card {g \<in> {0, Suc 0}.
          \<exists>g'. (\<lambda>g a b. (g mod (nat b + 1), Suc g)) g 0 (int (length [0::nat, 1]) - 1) = (Suc 0, g')
            \<and> randomizeData_while (\<lambda>g a b. (g mod (nat b + 1), Suc g)) (Suc 0) g [0, 1]
                \<lparr>pools = (\<lambda>a. if a = 0 then [''x1''] else []),
                 trainData = [''y1'', ''x2''], targetData = [1, 0], nEvents = 1\<rparr> =
              randomizeData_while (\<lambda>g a b. (g mod (nat b + 1), Suc g)) 0 g' [0, 1]
                (randomizeData_body [0, 1] (Suc 0)
                  \<lparr>pools = (\<lambda>a. if a = 0 then [''x1''] else []),
                   trainData = [''y1'', ''x2''], targetData = [1, 0], nEvents = 1\<rparr>)} *
        length [0::nat, 1] = card {0::nat, Suc 0}"
    by simp
  from run z e0 e1 dr' py have "(\<exists>s'. randomizeData_while ?rw 4 (Suc 0) [0, 1] ?s = Some (Inr s')
        \<and> nEvents s' = 0 \<and> pools s' 0 = [] \<and> pools s' (Suc 0) = [])
   \<and> randint_draws ?rw 4 (Suc 0) 1 = [1, 0, 1, 0]
   \<and> (\<exists>res. randomizeData_py ?rw 4 (Suc 0) [0, 1] ?h = Some (Inr res))" by blast
  with uni show ?thesis by (simp only: conj_assoc)
qed

text \<open>
  C2 as stated fails on the list \<open>[p, p]\<close> of one list object \<open>p = [x]\<close>: the counting loop
  makes \<open>nEvents = 2\<close>, the first iteration, whichever position it draws, pops \<open>x\<close> and leaves
  \<open>nEvents = 1\<close> with no row in any pool, and the loop does not end, whatever
  \<^verbatim>\<open>random.randint\<close> returns within its bounds.
\<close>

theorem randomizeData_while_steps_counterexample:
  "randomizeData_count [0, 0] (\<lambda>a. if a = 0 then [''x''] else []) 0 = 2
 \<and> nEvents (randomizeData_body [0, 0] 0
      \<lparr>pools = (\<lambda>a. if a = 0 then [''x''] else []), trainData = [], targetData = [],
       nEvents = 2\<rparr>) = 1
 \<and> pools (randomizeData_body [0, 0] 0
      \<lparr>pools = (\<lambda>a. if a = 0 then [''x''] else []), trainData = [], targetData = [],
       nEvents = 2\<rparr>) 0 = []
 \<and> randomizeData_py (\<lambda>g a b. (g mod (nat b + 1), Suc g)) 5 (0::nat) [0, 0]
      (\<lambda>a. if a = 0 then [''x''] else []) = None
 \<and> \<not> (\<exists>randint n (g::nat) res.
        (\<forall>g b. 0 \<le> b \<longrightarrow> int (fst (randint g 0 b)) \<le> b)
      \<and> randomizeData_py randint n g [0, 0] (\<lambda>a. if a = 0 then [''x''] else []) = Some res)"
proof -
  let ?h = "\<lambda>a::nat. if a = 0 then [''x''] else []"
  let ?s0 = "\<lparr>pools = ?h, trainData = [], targetData = [],
    nEvents = randomizeData_count [0, 0] ?h 0\<rparr>"
  have never: "randomizeData_py randint n g [0, 0] ?h = None"
    if c: "\<forall>g b. 0 \<le> b \<longrightarrow> int (fst (randint g 0 b)) \<le> b"
    for randint :: "nat \<Rightarrow> int \<Rightarrow> int \<Rightarrow> nat \<times> nat" and n g
  proof -
    have ne: "[0::nat, 0] \<noteq> []" by simp
    note range = randint_draws_range [of randint "[0, 0]" n g, OF c ne]
    have "int (length (concat (map (pools ?s0) (remdups [0::nat, 0])))) < nEvents ?s0" by simp
    from randomizeData_loop_shared [OF range this]
      randomizeData_while_loop [of randint "[0, 0]" n g ?s0, OF c ne]
    show ?thesis by (simp add: randomizeData_py_def)
  qed
  have c: "\<forall>g b. 0 \<le> b \<longrightarrow> int (fst ((\<lambda>(g::nat) (a::int) (b::int). (g mod (nat b + 1), Suc g)) g 0 b)) \<le> b"
  proof (intro allI impI)
    fix g :: nat and b :: int
    assume "0 \<le> b"
    then show "int (fst ((\<lambda>(g::nat) (a::int) (b::int). (g mod (nat b + 1), Suc g)) g 0 b)) \<le> b"
      by (simp add: mod_Suc_nat_le)
  qed
  have 1: "randomizeData_count [0, 0] ?h 0 = 2" by simp
  have 2: "nEvents (randomizeData_body [0, 0] 0
      \<lparr>pools = ?h, trainData = [], targetData = [], nEvents = 2\<rparr>) = 1"
    by (simp add: randomizeData_body_def)
  have 3: "pools (randomizeData_body [0, 0] 0
      \<lparr>pools = ?h, trainData = [], targetData = [], nEvents = 2\<rparr>) 0 = []"
    by (simp add: randomizeData_body_def)
  note 4 = never [OF c, of 5 0]
  have 5: "\<not> (\<exists>randint n (g::nat) res.
        (\<forall>g b. 0 \<le> b \<longrightarrow> int (fst (randint g 0 b)) \<le> b)
      \<and> randomizeData_py randint n g [0, 0] ?h = Some res)"
    using never by auto
  from 1 2 3 4 5 show ?thesis by (intro conjI)
qed

subsection \<open>Rounding to float64\<close>

text \<open>
  The rounded value differs from the exact one by at most the fraction \<open>2^-53\<close> of it,
  integers below \<open>2^53\<close> are not changed, and the sign is kept.
\<close>

lemma pow2_Suc: "pow2 (e + 1) = 2 * pow2 e"
proof (cases "0 \<le> e")
  case True
  then show ?thesis by (simp add: pow2_def nat_add_distrib)
next
  case False
  then have "nat (- e) = Suc (nat (- (e + 1)))" by simp
  with False show ?thesis by (auto simp: pow2_def)
qed

lemma pow2_pred: "pow2 (e - 1) = pow2 e / 2"
  using pow2_Suc [of "e - 1"] by simp

lemma pow2_pos: "0 < pow2 e"
  by (simp add: pow2_def)

lemma scale_down_props:
  "scale_down x e = (x', e') \<Longrightarrow> 0 < x \<Longrightarrow>
     x' * pow2 e' = x * pow2 e \<and> 0 < x' \<and> x' < 2 ^ 53 \<and> (2 ^ 52 \<le> x \<longrightarrow> 2 ^ 52 \<le> x')"
proof (induction x e rule: scale_down.induct)
  case (1 x e)
  show ?case
  proof (cases "2 ^ 53 \<le> x")
    case True
    with "1.prems"(1) have "scale_down (x / 2) (e + 1) = (x', e')"
      by (subst (asm) scale_down.simps) simp
    from "1.IH" [OF True this] "1.prems"(2) True show ?thesis
      by (simp add: pow2_Suc)
  next
    case False
    with "1.prems"(1) have "x' = x" "e' = e"
      by (subst (asm) scale_down.simps, simp)+
    with "1.prems"(2) False show ?thesis by simp
  qed
qed

lemma scale_up_props:
  "scale_up x e = (x', e') \<Longrightarrow> 0 < x \<Longrightarrow> x < 2 ^ 53 \<Longrightarrow>
     x' * pow2 e' = x * pow2 e \<and> 2 ^ 52 \<le> x' \<and> x' < 2 ^ 53"
proof (induction x e rule: scale_up.induct)
  case (1 x e)
  show ?case
  proof (cases "x < 2 ^ 52")
    case True
    with "1.prems"(2) have c: "0 < x \<and> x < 2 ^ 52" by simp
    with "1.prems"(1) have "scale_up (2 * x) (e - 1) = (x', e')"
      by (subst (asm) scale_up.simps) simp
    from "1.IH" [OF c this] c show ?thesis
      by (simp add: pow2_pred)
  next
    case False
    with "1.prems"(1) have "x' = x" "e' = e"
      by (subst (asm) scale_up.simps, simp)+
    with "1.prems"(2,3) False show ?thesis by simp
  qed
qed

lemma rne_error: "\<bar>real_of_int (rne x) - x\<bar> \<le> 1 / 2"
  unfolding rne_def Let_def by (auto simp: abs_if) linarith+

lemma round53_error: "\<bar>round53 x - x\<bar> \<le> \<bar>x\<bar> / 2 ^ 53"
proof (cases "x = 0")
  case True
  then show ?thesis by (simp add: round53_def)
next
  case False
  then have pos: "0 < \<bar>x\<bar>" by simp
  obtain x1 e1 where sd: "scale_down \<bar>x\<bar> 0 = (x1, e1)" by (cases "scale_down \<bar>x\<bar> 0")
  obtain m e where su: "scale_up x1 e1 = (m, e)" by (cases "scale_up x1 e1")
  from scale_down_props [OF sd pos]
  have 1: "x1 * pow2 e1 = \<bar>x\<bar>" "0 < x1" "x1 < 2 ^ 53" by (simp_all add: pow2_def)
  from scale_up_props [OF su 1(2,3)] 1(1)
  have 2: "m * pow2 e = \<bar>x\<bar>" "2 ^ 52 \<le> m" by simp_all
  have r: "round53 x = sgn x * of_int (rne m) * pow2 e"
    using False by (simp add: round53_def sd su)
  have "x = sgn x * \<bar>x\<bar>" by (simp add: abs_if sgn_if)
  then have "x = sgn x * (m * pow2 e)" using 2(1) by simp
  then have "round53 x - x = sgn x * ((of_int (rne m) - m) * pow2 e)"
    unfolding r by (simp add: algebra_simps)
  then have "\<bar>round53 x - x\<bar> = \<bar>of_int (rne m) - m\<bar> * pow2 e"
    using False pow2_pos [of e] by (simp add: abs_mult abs_sgn_eq)
  also have "\<dots> \<le> 1 / 2 * pow2 e"
    using rne_error [of m] pow2_pos [of e] by (intro mult_right_mono) simp_all
  also have "\<dots> \<le> (m / 2 ^ 53) * pow2 e"
    using 2(2) pow2_pos [of e] by (intro mult_right_mono) simp_all
  also have "\<dots> = \<bar>x\<bar> / 2 ^ 53" using 2(1) by simp
  finally show ?thesis .
qed


lemma scale_up_Ints: "scale_up x e = (x', e') \<Longrightarrow> x \<in> \<int> \<Longrightarrow> x' \<in> \<int>"
proof (induction x e rule: scale_up.induct)
  case (1 x e)
  show ?case
  proof (cases "0 < x \<and> x < 2 ^ 52")
    case True
    with "1.prems"(1) have "scale_up (2 * x) (e - 1) = (x', e')"
      by (subst (asm) scale_up.simps) simp
    moreover from "1.prems"(2) have "2 * x \<in> \<int>" by simp
    ultimately show ?thesis using "1.IH" [OF True] by blast
  next
    case False
    with "1.prems"(1) have "x' = x"
      by (subst (asm) scale_up.simps) auto
    with "1.prems"(2) show ?thesis by simp
  qed
qed

lemma rne_of_int: "rne (real_of_int z) = z"
  by (simp add: rne_def)

lemma round53_of_int:
  assumes "\<bar>real_of_int n\<bar> < 2 ^ 53"
  shows "round53 (real_of_int n) = real_of_int n"
proof (cases "n = 0")
  case True
  then show ?thesis by (simp add: round53_def)
next
  case False
  let ?x = "real_of_int n"
  from False have pos: "0 < \<bar>?x\<bar>" by simp
  have sd: "scale_down \<bar>?x\<bar> 0 = (\<bar>?x\<bar>, 0)"
    using assms by (subst scale_down.simps) simp
  obtain m e where su: "scale_up \<bar>?x\<bar> 0 = (m, e)" by (cases "scale_up \<bar>?x\<bar> 0")
  from scale_up_props [OF su pos assms]
  have 1: "m * pow2 e = \<bar>?x\<bar>" by (simp add: pow2_def)
  have "\<bar>?x\<bar> \<in> \<int>" by (metis Ints_of_int of_int_abs)
  from scale_up_Ints [OF su this] obtain z where "m = real_of_int z" by (auto elim: Ints_cases)
  then have "real_of_int (rne m) = m" by (simp add: rne_of_int)
  then have "round53 ?x = sgn ?x * (m * pow2 e)"
    using False by (simp add: round53_def sd su)
  also have "\<dots> = ?x" unfolding 1 by (simp add: abs_if sgn_if)
  finally show ?thesis .
qed

lemma round53_eq_0_iff: "round53 x = 0 \<longleftrightarrow> x = 0"
proof
  assume r: "round53 x = 0"
  show "x = 0"
  proof (rule ccontr)
    assume "x \<noteq> 0"
    then have "\<bar>x\<bar> / 2 ^ 53 < \<bar>x\<bar>" by simp
    with round53_error [of x] r show False by simp
  qed
qed (simp add: round53_def)


lemma round53_pos_iff: "0 < round53 x \<longleftrightarrow> 0 < x"
proof (cases "x = 0")
  case True
  then show ?thesis by (simp add: round53_def)
next
  case False
  then have "\<bar>x\<bar> / 2 ^ 53 < \<bar>x\<bar>" by simp
  with round53_error [of x] show ?thesis by (auto simp: abs_if split: if_splits)
qed

lemmas round53_eval = round53_def rne_def pow2_def scale_up.simps scale_down.simps

subsection \<open>plot_confusion_matrix: the normalized matrix, zero row sums, the caller's array\<close>

lemma normalized_array:
  "true_divide (fst (sum_axis1 (fst (astype_float st cm)) cm))
       (snd (astype_float st cm)) (snd (sum_axis1 (fst (astype_float st cm)) cm)) =
     (st\<lparr>int_arrays := int_arrays st @ [map (\<lambda>row. [sum_list row]) (int_arrays st ! cm)],
         float_arrays := float_arrays st @
           [map (map (\<lambda>v. Fin (round53 (real_of_int v)))) (int_arrays st ! cm),
            row_quotients (int_arrays st ! cm)]\<rparr>,
      Suc (length (float_arrays st)))"
  by (simp add: true_divide_def sum_axis1_def astype_float_def row_quotients_def
      map2_map_map o_def nth_append)

lemma plot_confusion_matrix_True:
  "\<exists>rest err.
     plot_confusion_matrix cm classes True title st =
       (st\<lparr>int_arrays := int_arrays st @ [map (\<lambda>row. [sum_list row]) (int_arrays st ! cm)],
           float_arrays := float_arrays st @
             [map (map (\<lambda>v. Fin (round53 (real_of_int v)))) (int_arrays st ! cm),
              row_quotients (int_arrays st ! cm)]\<rparr>,
        Print_text ''Normalized confusion matrix''
          # Print_array (Float_matrix (row_quotients (int_arrays st ! cm)))
          # Imshow (Float_matrix (row_quotients (int_arrays st ! cm))) # rest,
        err)
     \<and> (err = None \<or> err = Some ValueError \<and> concat (int_arrays st ! cm) = [])"
proof -
  have c: "(\<forall>xs\<in>set (row_quotients m). xs = []) = (\<forall>xs\<in>set m. xs = [])" for m
    by (auto simp: row_quotients_def)
  show ?thesis
    using normalized_array [of st cm]
    by (simp add: plot_confusion_matrix_def split_beta Let_def np_read_def nth_append c)
qed

lemma plot_confusion_matrix_False:
  "\<exists>rest err.
     plot_confusion_matrix cm classes False title st =
       (st,
        Print_text ''Confusion matrix, without normalization''
          # Print_array (Int_matrix (int_arrays st ! cm))
          # Imshow (Int_matrix (int_arrays st ! cm)) # rest,
        err)
     \<and> (err = None \<or> err = Some ValueError \<and> concat (int_arrays st ! cm) = [])"
  by (simp add: plot_confusion_matrix_def Let_def np_read_def)


lemma row_quotients_nth:
  assumes "i < length m" and "j < length (m ! i)"
  shows "row_quotients m ! i ! j =
    np_divide (Fin (round53 (real_of_int (m ! i ! j)))) (sum_list (m ! i))"
  using assms by (simp add: row_quotients_def)

lemma row_quotients_length:
  "length (row_quotients m) = length m"
  "i < length m \<Longrightarrow> length (row_quotients m ! i) = length (m ! i)"
  by (simp_all add: row_quotients_def)


lemma np_divide_zero:
  "np_divide (Fin (round53 (real_of_int v))) 0 =
     (if v = 0 then NaN else if 0 < v then PosInf else NegInf)"
  by (simp add: round53_eq_0_iff round53_pos_iff)




lemma round53_numeral [simp]:
  "numeral k < (2 :: real) ^ 53 \<Longrightarrow> round53 (numeral k) = numeral k"
  using round53_of_int [of "numeral k"] by simp

lemma round53_zero [simp]: "round53 0 = 0"
  by (simp add: round53_def)

lemma round53_minus: "round53 (- x) = - round53 x"
  by (simp add: round53_def split: prod.splits)




text \<open>
  C8. With \<^verbatim>\<open>normalize\<close> true, a row of \<open>m\<close> whose sum is zero is neither tested for nor
  treated apart: the division is carried out, and the entries of that row in the matrix
  printed and shown are NaN (where the entry of \<open>m\<close> is zero) or an infinity (with the
  sign of the entry, where it is not). The division raises nothing: the function goes on
  to print and show the matrix, and the only exception it can raise afterwards is the
  \<open>ValueError\<close> of \<^verbatim>\<open>cm.max()\<close> on a matrix with no entry at all. In a row whose sum is
  not zero every entry is a finite number, the rounded quotient, so a matrix whose rows
  all have nonzero sums gives no NaN and no infinity.
\<close>

theorem plot_confusion_matrix_zero_row:
  assumes "int_arrays st ! cm = m"
  shows
   "\<exists>st' m' rest err.
       plot_confusion_matrix cm classes True title st =
         (st', Print_text ''Normalized confusion matrix'' # Print_array (Float_matrix m')
                 # Imshow (Float_matrix m') # rest, err)
     \<and> (err = None \<or> err = Some ValueError \<and> concat m = [])
     \<and> length m' = length m
     \<and> (\<forall>i<length m.
           length (m' ! i) = length (m ! i)
         \<and> (\<forall>j<length (m ! i).
               (sum_list (m ! i) = 0 \<longrightarrow>
                  m' ! i ! j = (if m ! i ! j = 0 then NaN
                                else if 0 < m ! i ! j then PosInf else NegInf))
             \<and> (sum_list (m ! i) \<noteq> 0 \<longrightarrow>
                  m' ! i ! j = Fin (round53 (round53 (real_of_int (m ! i ! j))
                                      / round53 (real_of_int (sum_list (m ! i))))))))"
proof -
  have rows: "length (row_quotients m ! i) = length (m ! i)
         \<and> (\<forall>j<length (m ! i).
               (sum_list (m ! i) = 0 \<longrightarrow>
                  row_quotients m ! i ! j = (if m ! i ! j = 0 then NaN
                                else if 0 < m ! i ! j then PosInf else NegInf))
             \<and> (sum_list (m ! i) \<noteq> 0 \<longrightarrow>
                  row_quotients m ! i ! j =
                    Fin (round53 (round53 (real_of_int (m ! i ! j))
                           / round53 (real_of_int (sum_list (m ! i)))))))"
    if i: "i < length m" for i
    using i by (simp add: row_quotients_length row_quotients_nth round53_eq_0_iff round53_pos_iff)
  from plot_confusion_matrix_True [of cm classes title st]
  obtain rest err where
    "plot_confusion_matrix cm classes True title st =
       (st\<lparr>int_arrays := int_arrays st @ [map (\<lambda>row. [sum_list row]) m],
           float_arrays := float_arrays st @
             [map (map (\<lambda>v. Fin (round53 (real_of_int v)))) m, row_quotients m]\<rparr>,
        Print_text ''Normalized confusion matrix'' # Print_array (Float_matrix (row_quotients m))
          # Imshow (Float_matrix (row_quotients m)) # rest, err)"
    and "err = None \<or> err = Some ValueError \<and> concat m = []"
    unfolding assms by blast
  with rows row_quotients_length(1) [of m] show ?thesis by blast
qed

text \<open>
  A matrix with an all-zero row, a row \<open>[3, -3, 0]\<close> of sum zero and a row of sum 4: the
  call raises nothing, and the matrix shown holds NaN, \<open>+inf\<close>, \<open>-inf\<close> and \<open>0.5\<close>.
\<close>

theorem plot_confusion_matrix_zero_row_witness:
  "\<exists>st' m' rest.
     plot_confusion_matrix 0 [''a'', ''b'', ''c''] True ''t''
         \<lparr>int_arrays = [[[0, 0, 0], [3, - 3, 0], [1, 2, 1]]], float_arrays = []\<rparr> =
       (st', Print_text ''Normalized confusion matrix'' # Print_array (Float_matrix m')
               # Imshow (Float_matrix m') # rest, None)
   \<and> m' ! 0 ! 0 = NaN \<and> m' ! 1 ! 0 = PosInf \<and> m' ! 1 ! 1 = NegInf \<and> m' ! 1 ! 2 = NaN
   \<and> m' ! 2 ! 1 = Fin (2 / 4)"
proof -
  let ?m = "[[0, 0, 0], [3, - 3, 0], [1, 2, 1 :: int]]"
  let ?st = "\<lparr>int_arrays = [?m], float_arrays = []\<rparr>"
  have m: "int_arrays ?st ! 0 = ?m" by simp
  from plot_confusion_matrix_zero_row [OF m, of "[''a'', ''b'', ''c'']" "''t''"]
  obtain st' m' rest err where
    run: "plot_confusion_matrix 0 [''a'', ''b'', ''c''] True ''t'' ?st =
       (st', Print_text ''Normalized confusion matrix'' # Print_array (Float_matrix m')
               # Imshow (Float_matrix m') # rest, err)"
    and err: "err = None \<or> err = Some ValueError \<and> concat ?m = []"
    and rows: "\<forall>i<length ?m.
           length (m' ! i) = length (?m ! i)
         \<and> (\<forall>j<length (?m ! i).
               (sum_list (?m ! i) = 0 \<longrightarrow>
                  m' ! i ! j = (if ?m ! i ! j = 0 then NaN
                                else if 0 < ?m ! i ! j then PosInf else NegInf))
             \<and> (sum_list (?m ! i) \<noteq> 0 \<longrightarrow>
                  m' ! i ! j = Fin (round53 (round53 (real_of_int (?m ! i ! j))
                                      / round53 (real_of_int (sum_list (?m ! i)))))))"
    by blast
  from err have e: "err = None" by simp
  from rows [rule_format, of 0] have a: "m' ! 0 ! 0 = NaN" by simp
  from rows [rule_format, of 1] have b: "m' ! 1 ! 0 = PosInf" "m' ! 1 ! 1 = NegInf" "m' ! 1 ! 2 = NaN"
    by simp_all
  have "round53 (1 / 2) = 1 / 2" by (simp add: round53_eval)
  with rows [rule_format, of 2] have c: "m' ! 2 ! 1 = Fin (2 / 4)" by simp
  from run e a b c show ?thesis by blast
qed

text \<open>
  C10. For either value of \<^verbatim>\<open>normalize\<close>, every array that existed before the call holds
  the same entries after it: the store after the call is the store before it, with new
  arrays appended when \<^verbatim>\<open>normalize\<close> is true and with nothing changed when it is false.
  In particular the caller's matrix at address \<open>cm\<close> is unchanged. With \<^verbatim>\<open>normalize\<close> true
  the matrix printed and shown is one of the two new float arrays (the name \<^verbatim>\<open>cm\<close> is
  rebound to the quotient), not the caller's array.
\<close>

theorem plot_confusion_matrix_frame:
  "\<exists>st' calls err.
      plot_confusion_matrix cm classes normalize' title st = (st', calls, err)
    \<and> take (length (int_arrays st)) (int_arrays st') = int_arrays st
    \<and> take (length (float_arrays st)) (float_arrays st') = float_arrays st
    \<and> (cm < length (int_arrays st) \<longrightarrow> int_arrays st' ! cm = int_arrays st ! cm)
    \<and> (normalize' \<longrightarrow>
         (\<exists>m' rest. calls = Print_text ''Normalized confusion matrix''
               # Print_array (Float_matrix m') # Imshow (Float_matrix m') # rest
            \<and> length (float_arrays st') = length (float_arrays st) + 2
            \<and> float_arrays st' ! Suc (length (float_arrays st)) = m'))
    \<and> (\<not> normalize' \<longrightarrow> st' = st)"
proof (cases normalize')
  case True
  from plot_confusion_matrix_True [of cm classes title st]
  obtain rest err where
    "plot_confusion_matrix cm classes True title st =
       (st\<lparr>int_arrays := int_arrays st @ [map (\<lambda>row. [sum_list row]) (int_arrays st ! cm)],
           float_arrays := float_arrays st @
             [map (map (\<lambda>v. Fin (round53 (real_of_int v)))) (int_arrays st ! cm),
              row_quotients (int_arrays st ! cm)]\<rparr>,
        Print_text ''Normalized confusion matrix''
          # Print_array (Float_matrix (row_quotients (int_arrays st ! cm)))
          # Imshow (Float_matrix (row_quotients (int_arrays st ! cm))) # rest, err)"
    by blast
  with True show ?thesis by (simp add: nth_append)
next
  case False
  from plot_confusion_matrix_False [of cm classes title st]
  obtain rest err where
    "plot_confusion_matrix cm classes False title st =
       (st, Print_text ''Confusion matrix, without normalization''
          # Print_array (Int_matrix (int_arrays st ! cm))
          # Imshow (Int_matrix (int_arrays st ! cm)) # rest, err)"
    by blast
  with False show ?thesis by simp
qed

text \<open>After a normalizing call on \<open>[[8, 2], [3, 7]]\<close> the caller's array still holds \<open>[[8, 2], [3, 7]]\<close>.\<close>

theorem plot_confusion_matrix_frame_witness:
  "\<exists>st' calls err.
      plot_confusion_matrix 0 [''a'', ''b''] True ''t''
         \<lparr>int_arrays = [[[8, 2], [3, 7]]], float_arrays = []\<rparr> = (st', calls, err)
    \<and> int_arrays st' ! 0 = [[8, 2], [3, 7]]
    \<and> length (float_arrays st') = 2
    \<and> (\<exists>rest. calls = Print_text ''Normalized confusion matrix''
               # Print_array (Float_matrix (float_arrays st' ! 1))
               # Imshow (Float_matrix (float_arrays st' ! 1)) # rest)"
proof -
  let ?st = "\<lparr>int_arrays = [[[8, 2], [3, 7]]], float_arrays = []\<rparr>"
  from plot_confusion_matrix_frame [of 0 "[''a'', ''b'']" True "''t''" ?st]
  obtain st' calls err where
    run: "plot_confusion_matrix 0 [''a'', ''b''] True ''t'' ?st = (st', calls, err)"
    and same: "0 < length (int_arrays ?st) \<longrightarrow> int_arrays st' ! 0 = int_arrays ?st ! 0"
    and new: "True \<longrightarrow>
         (\<exists>m' rest. calls = Print_text ''Normalized confusion matrix''
               # Print_array (Float_matrix m') # Imshow (Float_matrix m') # rest
            \<and> length (float_arrays st') = length (float_arrays ?st) + 2
            \<and> float_arrays st' ! Suc (length (float_arrays ?st)) = m')"
    by blast
  from same have 1: "int_arrays st' ! 0 = [[8, 2], [3, 7]]" by simp
  from new have 2: "length (float_arrays st') = 2"
    and 3: "\<exists>rest. calls = Print_text ''Normalized confusion matrix''
               # Print_array (Float_matrix (float_arrays st' ! 1))
               # Imshow (Float_matrix (float_arrays st' ! 1)) # rest"
    by auto
  from run 1 2 3 show ?thesis by blast
qed

subsection \<open>The pyplot calls, step by step\<close>

text \<open>The pyplot calls on a state given by its three fields, the current figure last.\<close>

lemma plt_figure_explicit:
  "plt_figure \<lparr>figures = F, files = L, created = c\<rparr> =
     \<lparr>figures = F @ [[]], files = L, created = c + 1\<rparr>"
  by (simp add: plt_figure_def)

lemma on_figure_explicit:
  "on_figure f \<lparr>figures = F @ [fig], files = L, created = c\<rparr> =
     \<lparr>figures = F @ [f fig], files = L, created = c\<rparr>"
  by (simp add: on_figure_def gcf_def)

lemma on_axes_explicit:
  "on_axes f \<lparr>figures = F @ [a # fig], files = L, created = c\<rparr> =
     \<lparr>figures = F @ [butlast (a # fig) @ [f (last (a # fig))]], files = L, created = c\<rparr>"
  by (simp add: on_axes_def on_figure_explicit Let_def del: butlast.simps last.simps)

lemma on_axes_default:
  "on_axes f \<lparr>figures = F @ [[]], files = L, created = c\<rparr> =
     \<lparr>figures = F @ [[f (new_axes (1, 1, 1))]], files = L, created = c\<rparr>"
  by (simp add: on_axes_def on_figure_explicit)

lemma plt_savefig_explicit:
  "plt_savefig name \<lparr>figures = F @ [fig], files = L, created = c\<rparr> =
     \<lparr>figures = F @ [fig], files = L @ [(name, fig)], created = c\<rparr>"
  by (simp add: plt_savefig_def gcf_def)

lemma plt_close_explicit:
  "plt_close \<lparr>figures = F @ [fig], files = L, created = c\<rparr> =
     \<lparr>figures = F, files = L, created = c\<rparr>"
  by (simp add: plt_close_def)

lemmas pyplot_explicit = plt_figure_explicit on_figure_explicit on_axes_explicit on_axes_default
  plt_savefig_explicit plt_close_explicit plt_subplot_def ax_plot_def plt_hist_def plt_legend_def
  plt_xlabel_def plt_ylabel_def new_axes_def

subsection \<open>plotPerformance: the files written and the accuracy series\<close>

lemma plotPerformance_run:
  assumes "2 \<le> length loss" and "1 \<le> length acc"
  shows "plotPerformance loss acc \<lparr>figures = F, files = L, created = c\<rparr> =
    (\<lparr>figures = F @
          [[\<lparr>subplot_spec = (2, 2, 1),
             artists = [Line (loss ! 0) ''loss'', Line (loss ! 1) ''val_loss''],
             legend = Some (Loc ''upper right''), xlabel = ''epoch'', ylabel = ''loss''\<rparr>,
            \<lparr>subplot_spec = (2, 2, 2),
             artists = [Line (acc ! 0) ''acc'', Line (acc ! 0) ''val_acc''],
             legend = Some (Loc ''upper left''), xlabel = ''epoch'', ylabel = ''acc''\<rparr>]],
      files = L @
          [(''plots/loss.pdf'',
            [\<lparr>subplot_spec = (2, 2, 1),
              artists = [Line (loss ! 0) ''loss'', Line (loss ! 1) ''val_loss''],
              legend = Some (Loc ''upper right''), xlabel = ''epoch'', ylabel = ''loss''\<rparr>]),
           (''plots/loss.png'',
            [\<lparr>subplot_spec = (2, 2, 1),
              artists = [Line (loss ! 0) ''loss'', Line (loss ! 1) ''val_loss''],
              legend = Some (Loc ''upper right''), xlabel = ''epoch'', ylabel = ''loss''\<rparr>]),
           (''plots/acc.pdf'',
            [\<lparr>subplot_spec = (2, 2, 1),
              artists = [Line (loss ! 0) ''loss'', Line (loss ! 1) ''val_loss''],
              legend = Some (Loc ''upper right''), xlabel = ''epoch'', ylabel = ''loss''\<rparr>,
             \<lparr>subplot_spec = (2, 2, 2),
              artists = [Line (acc ! 0) ''acc'', Line (acc ! 0) ''val_acc''],
              legend = Some (Loc ''upper left''), xlabel = ''epoch'', ylabel = ''acc''\<rparr>]),
           (''plots/acc.png'',
            [\<lparr>subplot_spec = (2, 2, 1),
              artists = [Line (loss ! 0) ''loss'', Line (loss ! 1) ''val_loss''],
              legend = Some (Loc ''upper right''), xlabel = ''epoch'', ylabel = ''loss''\<rparr>,
             \<lparr>subplot_spec = (2, 2, 2),
              artists = [Line (acc ! 0) ''acc'', Line (acc ! 0) ''val_acc''],
              legend = Some (Loc ''upper left''), xlabel = ''epoch'', ylabel = ''acc''\<rparr>])],
      created = c + 1\<rparr>,
     None)"
proof -
  from assms have l: "\<not> length loss \<le> 0" "\<not> length loss \<le> 1" and a: "\<not> length acc \<le> 0"
    by auto
  show ?thesis
    unfolding plotPerformance_def Let_def if_not_P [OF l(1)] if_not_P [OF l(2)] if_not_P [OF a]
    by (simp add: pyplot_explicit)
qed

lemma plotPerformance_acc0:
  assumes "1 \<le> length acc" and "1 \<le> length acc'" and "acc' ! 0 = acc ! 0"
  shows "plotPerformance loss acc' st = plotPerformance loss acc st"
proof -
  from assms have "\<not> length acc \<le> 0" "\<not> length acc' \<le> 0" by auto
  then show ?thesis
    unfolding plotPerformance_def Let_def using assms(3) by (simp only: if_False)
qed

text \<open>
  C7. For a \<^verbatim>\<open>loss\<close> of at least two series and an \<^verbatim>\<open>acc\<close> of at least one, plotPerformance
  raises nothing and calls \<^verbatim>\<open>savefig\<close> four times, in this order: \<^verbatim>\<open>plots/loss.pdf\<close> and
  \<^verbatim>\<open>plots/loss.png\<close> with the figure holding the loss subplot (the lines \<^verbatim>\<open>loss[0]\<close>, labelled
  \<open>loss\<close>, and \<^verbatim>\<open>loss[1]\<close>, labelled \<open>val_loss\<close>), then \<^verbatim>\<open>plots/acc.pdf\<close> and \<^verbatim>\<open>plots/acc.png\<close>
  with the figure holding, beside the loss subplot, the accuracy subplot, whose two lines
  are both \<^verbatim>\<open>acc[0]\<close>, labelled \<open>acc\<close> and \<open>val_acc\<close>. \<^verbatim>\<open>acc[1]\<close> is never read: any \<^verbatim>\<open>acc'\<close>
  with the same first series gives the same result, whatever else it holds.
\<close>

theorem plotPerformance_accuracy_series:
  assumes "2 \<le> length loss" and "1 \<le> length acc"
  shows
   "(let loss_axes = \<lparr>subplot_spec = (2, 2, 1),
           artists = [Line (loss ! 0) ''loss'', Line (loss ! 1) ''val_loss''],
           legend = Some (Loc ''upper right''), xlabel = ''epoch'', ylabel = ''loss''\<rparr>;
         acc_axes = \<lparr>subplot_spec = (2, 2, 2),
           artists = [Line (acc ! 0) ''acc'', Line (acc ! 0) ''val_acc''],
           legend = Some (Loc ''upper left''), xlabel = ''epoch'', ylabel = ''acc''\<rparr>
     in \<exists>st'. plotPerformance loss acc st = (st', None)
          \<and> files st' = files st @
                [(''plots/loss.pdf'', [loss_axes]), (''plots/loss.png'', [loss_axes]),
                 (''plots/acc.pdf'', [loss_axes, acc_axes]),
                 (''plots/acc.png'', [loss_axes, acc_axes])]
          \<and> figures st' = figures st @ [[loss_axes, acc_axes]])
    \<and> (\<forall>acc'. 1 \<le> length acc' \<and> acc' ! 0 = acc ! 0 \<longrightarrow>
           plotPerformance loss acc' st = plotPerformance loss acc st)"
proof (rule conjI)
  obtain F L c where st: "st = \<lparr>figures = F, files = L, created = c\<rparr>"
    by (cases st) simp
  show "(let loss_axes = \<lparr>subplot_spec = (2, 2, 1),
           artists = [Line (loss ! 0) ''loss'', Line (loss ! 1) ''val_loss''],
           legend = Some (Loc ''upper right''), xlabel = ''epoch'', ylabel = ''loss''\<rparr>;
         acc_axes = \<lparr>subplot_spec = (2, 2, 2),
           artists = [Line (acc ! 0) ''acc'', Line (acc ! 0) ''val_acc''],
           legend = Some (Loc ''upper left''), xlabel = ''epoch'', ylabel = ''acc''\<rparr>
     in \<exists>st'. plotPerformance loss acc st = (st', None)
          \<and> files st' = files st @
                [(''plots/loss.pdf'', [loss_axes]), (''plots/loss.png'', [loss_axes]),
                 (''plots/acc.pdf'', [loss_axes, acc_axes]),
                 (''plots/acc.png'', [loss_axes, acc_axes])]
          \<and> figures st' = figures st @ [[loss_axes, acc_axes]])"
    unfolding st Let_def plotPerformance_run [OF assms] by simp
next
  show "\<forall>acc'. 1 \<le> length acc' \<and> acc' ! 0 = acc ! 0 \<longrightarrow>
           plotPerformance loss acc' st = plotPerformance loss acc st"
    using plotPerformance_acc0 [OF assms(2)] by blast
qed

text \<open>
  Four files in order, the accuracy subplot drawing \<open>[5, 6]\<close> twice; replacing the
  validation accuracy \<open>[7, 8]\<close> by \<open>[0, 0]\<close> changes nothing.
\<close>

theorem plotPerformance_accuracy_series_witness:
  "(\<exists>st'. plotPerformance [[1, 2], [3, 4]] [[5, 6], [7, 8 :: int]]
        \<lparr>figures = [], files = [], created = 0\<rparr> = (st', None)
     \<and> map fst (files st') =
         [''plots/loss.pdf'', ''plots/loss.png'', ''plots/acc.pdf'', ''plots/acc.png'']
     \<and> map artists (snd (files st' ! 0)) = [[Line [1, 2] ''loss'', Line [3, 4] ''val_loss'']]
     \<and> map artists (snd (files st' ! 2)) =
         [[Line [1, 2] ''loss'', Line [3, 4] ''val_loss''],
          [Line [5, 6] ''acc'', Line [5, 6] ''val_acc'']])
   \<and> plotPerformance [[1, 2], [3, 4]] [[5, 6], [0, 0 :: int]]
        \<lparr>figures = [], files = [], created = 0\<rparr> =
     plotPerformance [[1, 2], [3, 4]] [[5, 6], [7, 8]]
        \<lparr>figures = [], files = [], created = 0\<rparr>"
proof -
  have l: "2 \<le> length [[1, 2], [3, 4 :: int]]" and a: "1 \<le> length [[5, 6], [7, 8 :: int]]"
    by simp_all
  note T = plotPerformance_accuracy_series [OF l a, of "\<lparr>figures = [], files = [], created = 0\<rparr>"]
  from T [THEN conjunct1]
  have 1: "\<exists>st'. plotPerformance [[1, 2], [3, 4]] [[5, 6], [7, 8 :: int]]
        \<lparr>figures = [], files = [], created = 0\<rparr> = (st', None)
     \<and> map fst (files st') =
         [''plots/loss.pdf'', ''plots/loss.png'', ''plots/acc.pdf'', ''plots/acc.png'']
     \<and> map artists (snd (files st' ! 0)) = [[Line [1, 2] ''loss'', Line [3, 4] ''val_loss'']]
     \<and> map artists (snd (files st' ! 2)) =
         [[Line [1, 2] ''loss'', Line [3, 4] ''val_loss''],
          [Line [5, 6] ''acc'', Line [5, 6] ''val_acc'']]"
    by (auto simp: Let_def)
  have "1 \<le> length [[5, 6], [0, 0 :: int]] \<and> [[5, 6], [0, 0 :: int]] ! 0 = [[5, 6], [7, 8]] ! 0"
    by simp
  with T [THEN conjunct2]
  have 2: "plotPerformance [[1, 2], [3, 4]] [[5, 6], [0, 0 :: int]]
        \<lparr>figures = [], files = [], created = 0\<rparr> =
     plotPerformance [[1, 2], [3, 4]] [[5, 6], [7, 8]]
        \<lparr>figures = [], files = [], created = 0\<rparr>"
    by blast
  from 1 2 show ?thesis by (rule conjI)
qed

subsection \<open>plotProbabilities: one figure for every pair of classes\<close>

lemma plotProbabilities_body_run:
  assumes "iProb < ncols (fst (probs ! jProb))"
  shows "plotProbabilities_body probs iProb jProb \<lparr>figures = F, files = L, created = c\<rparr> =
     (\<lparr>figures = F, files = L @ [saved_figure probs iProb jProb], created = c + 1\<rparr>, None)"
  using assms
  by (simp add: plotProbabilities_body_def column_def saved_figure_def Let_def pyplot_explicit)

lemma plotProbabilities_inner_run:
  assumes "\<forall>jProb\<in>set js. iProb < ncols (fst (probs ! jProb))"
  shows "plotProbabilities_inner probs iProb js \<lparr>figures = F, files = L, created = c\<rparr> =
     (\<lparr>figures = F, files = L @ map (saved_figure probs iProb) js, created = c + length js\<rparr>,
      None)"
  using assms
  by (induction js arbitrary: L c) (simp_all add: plotProbabilities_body_run)

lemma plotProbabilities_outer_run:
  assumes "\<forall>iProb\<in>set is. \<forall>jProb<length probs. iProb < ncols (fst (probs ! jProb))"
  shows "plotProbabilities_outer probs is \<lparr>figures = F, files = L, created = c\<rparr> =
     (\<lparr>figures = F,
       files = L @ concat (map (\<lambda>iProb. map (saved_figure probs iProb) [0..<length probs]) is),
       created = c + length is * length probs\<rparr>,
      None)"
  using assms
proof (induction "is" arbitrary: L c)
  case Nil
  then show ?case by simp
next
  case (Cons iProb "is")
  from Cons.prems have "\<forall>jProb\<in>set [0..<length probs]. iProb < ncols (fst (probs ! jProb))"
    by simp
  from plotProbabilities_inner_run [OF this]
  have inner: "plotProbabilities_inner probs iProb [0..<length probs]
        \<lparr>figures = F, files = L, created = c\<rparr> =
     (\<lparr>figures = F, files = L @ map (saved_figure probs iProb) [0..<length probs],
       created = c + length probs\<rparr>, None)"
    by simp
  from Cons.prems
  have "\<forall>iProb\<in>set is. \<forall>jProb<length probs. iProb < ncols (fst (probs ! jProb))" by simp
  from Cons.IH [OF this] show ?case
    by (simp add: inner add.assoc)
qed

text \<open>
  For \<open>N\<close> classes (each array with at least \<open>N\<close> columns) the call creates \<open>N * N\<close>
  figures and saves each of them once, \<open>N\<close> of them under each of the \<open>N\<close> file names.
\<close>

lemma plotProbabilities_run:
  assumes "\<forall>jProb<length probs. length probs \<le> ncols (fst (probs ! jProb))"
  shows "plotProbabilities probs \<lparr>figures = F, files = L, created = c\<rparr> =
     (\<lparr>figures = F,
       files = L @ concat (map (\<lambda>iProb. map (saved_figure probs iProb) [0..<length probs])
                             [0..<length probs]),
       created = c + length probs * length probs\<rparr>,
      None)"
proof -
  from assms
  have "\<forall>iProb\<in>set [0..<length probs]. \<forall>jProb<length probs. iProb < ncols (fst (probs ! jProb))"
    by (auto intro: less_le_trans)
  from plotProbabilities_outer_run [OF this] show ?thesis
    by (simp add: plotProbabilities_def)
qed

text \<open>
  C6. On a bundle of two classes \<open>A\<close> and \<open>B\<close> the code creates four figures, not two,
  and each figure holds one histogram, not two: \<^verbatim>\<open>plt.figure()\<close>, \<^verbatim>\<open>plt.savefig\<close> and
  \<^verbatim>\<open>plt.close()\<close> stand in the inner loop. \<^verbatim>\<open>prob_A.pdf\<close> is written twice, first with the
  histogram of class \<open>A\<close> alone and then, over it, with the histogram of class \<open>B\<close> alone,
  and so is \<^verbatim>\<open>prob_B.pdf\<close>: no figure overlays the classes, and the files that remain show
  the last class only.
\<close>

theorem plotProbabilities_two_classes:
  "plotProbabilities
     [(\<lparr>ncols = 2, prob_rows = [[9 / 10, 1 / 10], [4 / 5, 1 / 5 :: real]]\<rparr>, ''A'', ''red''),
      (\<lparr>ncols = 2, prob_rows = [[3 / 10, 7 / 10]]\<rparr>, ''B'', ''blue'')]
     \<lparr>figures = [], files = [], created = 0\<rparr> =
   (\<lparr>figures = [],
     files =
       [(''prob_A.pdf'',
         [\<lparr>subplot_spec = (1, 1, 1),
           artists = [Hist [9 / 10, 4 / 5] 20 (0, 1) ''A'' ''red'' ''step'' True True],
           legend = Some (Loc_code 3), xlabel = ''Probability for A Classification'',
           ylabel = []\<rparr>]),
        (''prob_A.pdf'',
         [\<lparr>subplot_spec = (1, 1, 1),
           artists = [Hist [3 / 10] 20 (0, 1) ''B'' ''blue'' ''step'' True True],
           legend = Some (Loc_code 3), xlabel = ''Probability for A Classification'',
           ylabel = []\<rparr>]),
        (''prob_B.pdf'',
         [\<lparr>subplot_spec = (1, 1, 1),
           artists = [Hist [1 / 10, 1 / 5] 20 (0, 1) ''A'' ''red'' ''step'' True True],
           legend = Some (Loc_code 3), xlabel = ''Probability for B Classification'',
           ylabel = []\<rparr>]),
        (''prob_B.pdf'',
         [\<lparr>subplot_spec = (1, 1, 1),
           artists = [Hist [7 / 10] 20 (0, 1) ''B'' ''blue'' ''step'' True True],
           legend = Some (Loc_code 3), xlabel = ''Probability for B Classification'',
           ylabel = []\<rparr>])],
     created = 4\<rparr>,
    None)"
proof -
  let ?probs = "[(\<lparr>ncols = 2, prob_rows = [[9 / 10, 1 / 10], [4 / 5, 1 / 5 :: real]]\<rparr>, ''A'', ''red''),
      (\<lparr>ncols = 2, prob_rows = [[3 / 10, 7 / 10]]\<rparr>, ''B'', ''blue'')]"
  have cols: "\<forall>jProb<length ?probs. length ?probs \<le> ncols (fst (?probs ! jProb))"
    by (simp add: less_Suc_eq)
  have idx: "[0..<length ?probs] = [0, 1]" by (simp add: upt_rec)
  show ?thesis
    unfolding plotProbabilities_run [OF cols] idx
    by (simp add: saved_figure_def)
qed

subsection \<open>make_keras_picklable: restoring the captured state\<close>

text \<open>
  C9. After make_keras_picklable both hooks are installed, and they round-trip: let
  loading the file that saving the model \<open>m\<close> writes give a model \<open>m'\<close> with the
  attributes of \<open>m\<close> (load undoes save). Then \<^verbatim>\<open>__getstate__\<close> on \<open>m\<close> returns a state, and
  \<^verbatim>\<open>__setstate__\<close> on any object \<open>self\<close> with that state raises nothing and leaves \<open>self\<close>,
  still the same object, with the attributes of \<open>m\<close>; so whatever is read from the
  attributes, the weights among them (\<open>get_weights\<close>), is equal to that of \<open>m\<close>. Both
  temporary files are gone afterwards, and a file system that did not hold their names
  is unchanged.
\<close>

theorem keras_pickle_round_trip:
  assumes "load_model (save_model m) = Inr m'" and "attrs m' = attrs m"
  shows "\<exists>g s state fs1 self' fs2.
      cls_getstate (make_keras_picklable save_model load_model cls) = Some g
    \<and> cls_setstate (make_keras_picklable save_model load_model cls) = Some s
    \<and> g tmp m fs = (state, fs1)
    \<and> s tmp' self state fs1 = (Inr self', fs2)
    \<and> attrs self' = attrs m
    \<and> get_weights (attrs self') = get_weights (attrs m)
    \<and> obj_id self' = obj_id self
    \<and> fs1 tmp = None \<and> fs2 tmp' = None
    \<and> (tmp \<notin> dom fs \<and> tmp' \<notin> dom fs \<longrightarrow> fs1 = fs \<and> fs2 = fs)"
proof -
  have g: "getstate save_model tmp m fs = ([''model_str'' \<mapsto> save_model m], fs(tmp := None))"
    by (simp add: getstate_def)
  have s: "setstate load_model tmp' self [''model_str'' \<mapsto> save_model m] (fs(tmp := None)) =
      (Inr (self\<lparr>attrs := attrs m'\<rparr>), (fs(tmp := None))(tmp' := None))"
    using assms(1) by (simp add: setstate_def)
  have frame: "fs(tmp := None) = fs" if "tmp \<notin> dom fs" for tmp
    using that by (auto simp: fun_eq_iff)
  have "tmp \<notin> dom fs \<and> tmp' \<notin> dom fs \<longrightarrow>
      fs(tmp := None) = fs \<and> (fs(tmp := None))(tmp' := None) = fs"
    using frame by metis
  with g s assms(2) show ?thesis
    by (simp add: make_keras_picklable_def)
qed

text \<open>
  A model whose only attribute is the number 3, saved as three bytes and loaded by
  counting them: the restored object has the attribute 3 and its own identity.
\<close>

theorem keras_pickle_round_trip_witness:
  "\<exists>g s state fs1 self' fs2.
      cls_getstate (make_keras_picklable (\<lambda>i. replicate (attrs i) CHR ''w'')
          (\<lambda>b. Inr \<lparr>obj_id = 9, attrs = length b\<rparr>)
          \<lparr>cls_getstate = None, cls_setstate = None\<rparr>) = Some g
    \<and> cls_setstate (make_keras_picklable (\<lambda>i. replicate (attrs i) CHR ''w'')
          (\<lambda>b. Inr \<lparr>obj_id = 9, attrs = length b\<rparr>)
          \<lparr>cls_getstate = None, cls_setstate = None\<rparr>) = Some s
    \<and> g ''/tmp/a.hdf5'' \<lparr>obj_id = 1, attrs = 3 :: nat\<rparr> Map.empty = (state, fs1)
    \<and> s ''/tmp/b.hdf5'' \<lparr>obj_id = 2, attrs = 0\<rparr> state fs1 = (Inr self', fs2)
    \<and> attrs self' = 3 \<and> obj_id self' = 2 \<and> fs1 = Map.empty \<and> fs2 = Map.empty"
proof -
  let ?save = "\<lambda>i :: nat py_object. replicate (attrs i) CHR ''w''"
  let ?load = "\<lambda>b :: string. Inr \<lparr>obj_id = 9, attrs = length b\<rparr> :: py_error + nat py_object"
  let ?m = "\<lparr>obj_id = 1, attrs = 3 :: nat\<rparr>"
  have a: "?load (?save ?m) = Inr \<lparr>obj_id = 9, attrs = 3\<rparr>" by simp
  have b: "attrs \<lparr>obj_id = 9, attrs = 3 :: nat\<rparr> = attrs ?m" by simp
  from keras_pickle_round_trip [of ?load ?save ?m "\<lparr>obj_id = 9, attrs = 3\<rparr>", OF a b,
      of "\<lparr>cls_getstate = None, cls_setstate = None\<rparr>" "''/tmp/a.hdf5''" Map.empty
         "''/tmp/b.hdf5''" "\<lparr>obj_id = 2, attrs = 0\<rparr>" id]
  show ?thesis by (simp del: replicate.simps) blast
qed

end
